theory Spec2Isabelle
  imports Main "HOL-Library.Word"
begin

section \<open>Paths\<close>

text \<open>
  The archiver looks at its two path arguments through \<^verbatim>\<open>pathlib.Path\<close>: the final
  component (\<^verbatim>\<open>name\<close>), its last suffix (\<^verbatim>\<open>suffix\<close>) and the list of its suffixes
  (\<^verbatim>\<open>suffixes\<close>). They are written out here for POSIX paths as Python 3.14 computes
  them (the release that ships \<^verbatim>\<open>compression.zstd\<close>, which the program imports):
  \<^verbatim>\<open>suffix\<close> strips leading dots from the name and returns the text from the last dot on,
  \<^verbatim>\<open>suffixes\<close> strips leading dots, splits at every dot and drops the first piece.
\<close>

type_synonym path = string

fun split_on :: "char \<Rightarrow> string \<Rightarrow> string list" where
  "split_on c [] = [[]]"
| "split_on c (x # xs) =
     (if x = c then [] # split_on c xs
      else (case split_on c xs of [] \<Rightarrow> [[x]] | p # ps \<Rightarrow> (x # p) # ps))"

definition parts :: "path \<Rightarrow> string list" where
  "parts s = filter (\<lambda>p. p \<noteq> [] \<and> p \<noteq> ''.'') (split_on CHR ''/'' s)"

definition path_name :: "path \<Rightarrow> string" where
  "path_name s = (if parts s = [] then [] else last (parts s))"

definition lstrip_dots :: "string \<Rightarrow> string" where
  "lstrip_dots s = dropWhile (\<lambda>c. c = CHR ''.'') s"

definition suffix :: "path \<Rightarrow> string" where
  "suffix s =
     (let name = lstrip_dots (path_name s)
      in if CHR ''.'' \<notin> set name then []
         else CHR ''.'' # rev (takeWhile (\<lambda>c. c \<noteq> CHR ''.'') (rev name)))"

definition suffixes :: "path \<Rightarrow> string list" where
  "suffixes s = map (\<lambda>e. CHR ''.'' # e) (tl (split_on CHR ''.'' (lstrip_dots (path_name s))))"

text \<open>
  \<^verbatim>\<open>os.path.basename(folder)\<close> of a \<^verbatim>\<open>Path\<close> object: the text after the last slash of
  the path's string form, which is \<^verbatim>\<open>"."\<close> for the empty relative path.
\<close>

definition basename :: "path \<Rightarrow> string" where
  "basename s =
     (if parts s = [] then (if s \<noteq> [] \<and> hd s = CHR ''/'' then [] else ''.'')
      else last (parts s))"

section \<open>Files, output and failure\<close>

text \<open>
  The file system is a finite map from path strings to nodes; a node is a regular file
  with its bytes or a directory with its named entries. Two different strings are two
  different objects here, every parent directory exists and every access is permitted:
  links, special files, permissions and a path lying inside another path's tree are not
  modelled.
\<close>

type_synonym byte = "8 word"

datatype node = File "byte list" | Dir "(string \<times> node) list"

type_synonym filesystem = "path \<rightharpoonup> node"

datatype cell = Filled | Pac | Blank

datatype label = Zstd_pack | Zstd_unpack | Bz2_pack | Bz2_unpack

text \<open>
  What the program writes to standard output, one constructor per \<^verbatim>\<open>print\<close> or
  \<^verbatim>\<open>sys.stdout.write\<close> of the source. A \<open>Bar\<close> carries the label, the cells between the
  brackets and the two numbers the percentage is computed from; \<open>Stats\<close> carries the two
  sizes of the benchmark block (the elapsed time is not modelled).
\<close>

datatype message =
    Mode_hint
  | Format_hint
  | Dir_target_hint
  | Tar_building path
  | Tar_unpacking path
  | Finished label
  | Bar label "cell list" int int
  | Newline
  | Stats nat nat

text \<open>
  \<open>reports\<close> is a ghost field: the arguments of every call of \<^verbatim>\<open>pacman_progress\<close>, in
  order, also of the calls that print nothing.
\<close>

record world =
  files :: filesystem
  stdout :: "message list"
  reports :: "(int \<times> int \<times> label) list"

datatype error =
    FileNotFoundError
  | IsADirectoryError
  | FileExistsError
  | CodecError
  | BundleError

text \<open>
  How a call ends: it returns, it leaves the process through \<^verbatim>\<open>sys.exit(n)\<close>, or an
  exception leaves it. The source catches nothing, so an exception ends the process too.
\<close>

datatype status = Returned | Exited nat | Raised error

type_synonym step = "world \<Rightarrow> status \<times> world"

definition andthen :: "step \<Rightarrow> step \<Rightarrow> step" where
  "andthen f g w = (case f w of (Returned, w') \<Rightarrow> g w' | (s, w') \<Rightarrow> (s, w'))"

definition skip :: step where
  "skip w = (Returned, w)"

definition print :: "message \<Rightarrow> world \<Rightarrow> world" where
  "print m w = w\<lparr>stdout := stdout w @ [m]\<rparr>"

definition sys_exit :: "nat \<Rightarrow> step" where
  "sys_exit n w = (Exited n, w)"

definition is_file :: "world \<Rightarrow> path \<Rightarrow> bool" where
  "is_file w p = (case files w p of Some (File bs) \<Rightarrow> True | _ \<Rightarrow> False)"

definition is_dir :: "world \<Rightarrow> path \<Rightarrow> bool" where
  "is_dir w p = (case files w p of Some (Dir es) \<Rightarrow> True | _ \<Rightarrow> False)"

definition exists :: "world \<Rightarrow> path \<Rightarrow> bool" where
  "exists w p = (files w p \<noteq> None)"

definition read_bytes :: "world \<Rightarrow> path \<Rightarrow> error + byte list" where
  "read_bytes w p =
     (case files w p of
        None \<Rightarrow> Inl FileNotFoundError
      | Some (Dir es) \<Rightarrow> Inl IsADirectoryError
      | Some (File bs) \<Rightarrow> Inr bs)"

definition write_bytes :: "path \<Rightarrow> byte list \<Rightarrow> step" where
  "write_bytes p bs w =
     (case files w p of
        Some (Dir es) \<Rightarrow> (Raised IsADirectoryError, w)
      | _ \<Rightarrow> (Returned, w\<lparr>files := (files w)(p \<mapsto> File bs)\<rparr>))"

definition remove :: "path \<Rightarrow> step" where
  "remove p w =
     (case files w p of
        None \<Rightarrow> (Raised FileNotFoundError, w)
      | Some (Dir es) \<Rightarrow> (Raised IsADirectoryError, w)
      | Some (File bs) \<Rightarrow> (Returned, w\<lparr>files := (files w)(p := None)\<rparr>))"

section \<open>Size Inspector\<close>

fun node_is_file :: "node \<Rightarrow> bool" where
  "node_is_file (File bs) = True"
| "node_is_file (Dir es) = False"

text \<open>
  \<^verbatim>\<open>stat().st_size\<close>. A directory has a size of its own, which depends on the platform
  (4096 is a common value); the source reads the size of regular files only.
\<close>

fun st_size :: "node \<Rightarrow> nat" where
  "st_size (File bs) = length bs"
| "st_size (Dir es) = 4096"

text \<open>\<^verbatim>\<open>p.rglob("*")\<close>: every node below a directory, at any depth.\<close>

fun rglob :: "node \<Rightarrow> node list" where
  "rglob (File bs) = []"
| "rglob (Dir es) = concat (map (\<lambda>e. snd e # rglob (snd e)) es)"

definition calc_size :: "world \<Rightarrow> path \<Rightarrow> nat" where
  "calc_size w p =
     (if is_file w p then (case files w p of Some n \<Rightarrow> st_size n | None \<Rightarrow> 0)
      else if is_dir w p then
        (case files w p of
           Some n \<Rightarrow> sum_list (map st_size (filter node_is_file (rglob n)))
         | None \<Rightarrow> 0)
      else 0)"

text \<open>
  The contract in the specification's words: a regular file counts its bytes, a directory
  counts what its entries count and nothing for itself.
\<close>

fun tree_bytes :: "node \<Rightarrow> nat" where
  "tree_bytes (File bs) = length bs"
| "tree_bytes (Dir es) = sum_list (map (\<lambda>e. tree_bytes (snd e)) es)"

section \<open>Progress Reporter\<close>

text \<open>
  \<^verbatim>\<open>int(width * (done / total))\<close>. The source divides and multiplies in binary floating
  point; the model takes the quotient exactly and rounds toward zero as \<^verbatim>\<open>int\<close> does.
\<close>

definition int_of_scaled :: "int \<Rightarrow> int \<Rightarrow> int \<Rightarrow> int" where
  "int_of_scaled width dn tot =
     sgn (width * dn) * sgn tot * (\<bar>width * dn\<bar> div \<bar>tot\<bar>)"

definition progress_bar :: "int \<Rightarrow> int \<Rightarrow> cell list" where
  "progress_bar dn tot =
     (let width = 30;
          filled = int_of_scaled width dn tot;
          empty = width - filled
      in replicate (nat filled) Filled @ [Pac]
           @ replicate (nat (if empty > 0 then empty - 1 else 0)) Blank)"

definition pacman_progress :: "int \<Rightarrow> int \<Rightarrow> label \<Rightarrow> world \<Rightarrow> world" where
  "pacman_progress dn tot lab w =
     (let w0 = w\<lparr>reports := reports w @ [(dn, tot, lab)]\<rparr>
      in if tot = 0 then w0
         else let w1 = print (Bar lab (progress_bar dn tot) dn tot) w0
              in if dn \<ge> tot then print Newline w1 else w1)"

section \<open>The libraries behind the codecs and the bundle\<close>

text \<open>
  The compression libraries and \<^verbatim>\<open>tarfile\<close> are not code of this program. They are a
  parameter: a record of the operations the program calls. A zstd compressor and a zstd
  decompressor are objects with a state, threaded through the calls; \<open>None\<close> is an
  exception of the library. \<open>tar_extractall\<close> takes the archive's bytes and the entries
  of the destination directory as they are, and answers whether it succeeded and which
  entries the destination holds afterwards; \<open>tar_blank\<close> is an archive nothing was added
  to.
\<close>

record ('c, 'd) backend =
  zc_new :: 'c
  zc_compress :: "'c \<Rightarrow> byte list \<Rightarrow> 'c \<times> byte list"
  zc_flush :: "'c \<Rightarrow> byte list"
  zd_new :: 'd
  zd_decompress :: "'d \<Rightarrow> byte list \<Rightarrow> ('d \<times> byte list) option"
  bz2_compress_all :: "byte list \<Rightarrow> byte list"
  bz2_decompress_all :: "byte list \<Rightarrow> byte list option"
  tar_add :: "string \<Rightarrow> node \<Rightarrow> byte list"
  tar_blank :: "byte list"
  tar_extractall :: "byte list \<Rightarrow> (string \<times> node) list \<Rightarrow> bool \<times> (string \<times> node) list"

section \<open>Streaming Codec Adapter\<close>

definition chunk :: nat where
  "chunk = 256 * 1024"

text \<open>
  The loop of \<^verbatim>\<open>zstd_compress\<close>: \<^verbatim>\<open>for i in range(0, total, chunk)\<close>, with the
  compressor, the output buffer and the world as they stand before the iteration.
\<close>

function zstd_compress_loop ::
  "('c, 'd) backend \<Rightarrow> byte list \<Rightarrow> nat \<Rightarrow> bool \<Rightarrow> nat \<Rightarrow> 'c \<Rightarrow> byte list \<Rightarrow> world
     \<Rightarrow> 'c \<times> byte list \<times> world" where
  "zstd_compress_loop B data tot show_progress i compressor out w =
     (if i < tot then
        (let part = take chunk (drop i data);
             r = zc_compress B compressor part;
             out' = out @ snd r;
             w' = (if show_progress
                   then pacman_progress (int (i + length part)) (int tot) Zstd_pack w
                   else w)
         in zstd_compress_loop B data tot show_progress (i + chunk) (fst r) out' w')
      else (compressor, out, w))"
  by pat_completeness auto
termination
  by (relation "measure (\<lambda>(B, data, tot, show_progress, i, compressor, out, w). tot - i)")
     (auto simp: chunk_def)

definition zstd_compress :: "('c, 'd) backend \<Rightarrow> path \<Rightarrow> path \<Rightarrow> bool \<Rightarrow> step" where
  "zstd_compress B src dst show_progress w =
     (case read_bytes w src of
        Inl e \<Rightarrow> (Raised e, w)
      | Inr data \<Rightarrow>
          (case zstd_compress_loop B data (length data) show_progress 0 (zc_new B) [] w of
             (compressor, out, w1) \<Rightarrow>
               andthen (write_bytes dst (out @ zc_flush B compressor))
                 (\<lambda>w2. (Returned, if show_progress then print (Finished Zstd_pack) w2 else w2))
                 w1))"

text \<open>
  The loop of \<^verbatim>\<open>zstd_decompress\<close>: \<^verbatim>\<open>while i < total\<close>, one decompressor for all blocks.
  An exception of the decompressor leaves the loop with the world as it stands.
\<close>

function zstd_decompress_loop ::
  "('c, 'd) backend \<Rightarrow> byte list \<Rightarrow> nat \<Rightarrow> bool \<Rightarrow> nat \<Rightarrow> 'd \<Rightarrow> byte list \<Rightarrow> world
     \<Rightarrow> (error + byte list) \<times> world" where
  "zstd_decompress_loop B data tot show_progress i decompressor out w =
     (if i < tot then
        (let block = take chunk (drop i data)
         in case zd_decompress B decompressor block of
              None \<Rightarrow> (Inl CodecError, w)
            | Some r \<Rightarrow>
                (let out' = out @ snd r;
                     w' = (if show_progress
                           then pacman_progress (int (i + length block)) (int tot) Zstd_unpack w
                           else w)
                 in zstd_decompress_loop B data tot show_progress (i + chunk) (fst r) out' w'))
      else (Inr out, w))"
  by pat_completeness auto
termination
  by (relation "measure (\<lambda>(B, data, tot, show_progress, i, decompressor, out, w). tot - i)")
     (auto simp: chunk_def)

definition zstd_decompress :: "('c, 'd) backend \<Rightarrow> path \<Rightarrow> path \<Rightarrow> bool \<Rightarrow> step" where
  "zstd_decompress B src dst show_progress w =
     (case read_bytes w src of
        Inl e \<Rightarrow> (Raised e, w)
      | Inr data \<Rightarrow>
          (case zstd_decompress_loop B data (length data) show_progress 0 (zd_new B) [] w of
             (Inl e, w1) \<Rightarrow> (Raised e, w1)
           | (Inr out, w1) \<Rightarrow>
               andthen (write_bytes dst out)
                 (\<lambda>w2. (Returned, if show_progress then print (Finished Zstd_unpack) w2 else w2))
                 w1))"

definition bz2_compress :: "('c, 'd) backend \<Rightarrow> path \<Rightarrow> path \<Rightarrow> bool \<Rightarrow> step" where
  "bz2_compress B src dst show_progress w =
     (case read_bytes w src of
        Inl e \<Rightarrow> (Raised e, w)
      | Inr data \<Rightarrow>
          andthen (write_bytes dst (bz2_compress_all B data))
            (\<lambda>w1. (Returned,
               if show_progress
               then print (Finished Bz2_pack)
                      (pacman_progress (int (length data)) (int (length data)) Bz2_pack w1)
               else w1))
            w)"

definition bz2_decompress :: "('c, 'd) backend \<Rightarrow> path \<Rightarrow> path \<Rightarrow> bool \<Rightarrow> step" where
  "bz2_decompress B src dst show_progress w =
     (case read_bytes w src of
        Inl e \<Rightarrow> (Raised e, w)
      | Inr data \<Rightarrow>
          (case bz2_decompress_all B data of
             None \<Rightarrow> (Raised CodecError, w)
           | Some result \<Rightarrow>
               andthen (write_bytes dst result)
                 (\<lambda>w1. (Returned,
                    if show_progress
                    then print (Finished Bz2_unpack)
                           (pacman_progress (int (length data)) (int (length data)) Bz2_unpack w1)
                    else w1))
                 w))"

section \<open>Bundle Service\<close>

text \<open>
  \<^verbatim>\<open>tarfile.open(tar_path, "w")\<close> creates or truncates the archive before \<^verbatim>\<open>tar.add\<close>
  reads the folder.
\<close>

definition tar_build :: "('c, 'd) backend \<Rightarrow> path \<Rightarrow> path \<Rightarrow> step" where
  "tar_build B folder tar_path w =
     (let w1 = print (Tar_building folder) w
      in case files w1 tar_path of
           Some (Dir es) \<Rightarrow> (Raised IsADirectoryError, w1)
         | _ \<Rightarrow>
             (let w2 = w1\<lparr>files := (files w1)(tar_path \<mapsto> File (tar_blank B))\<rparr>
              in case files w2 folder of
                   None \<Rightarrow> (Raised FileNotFoundError, w2)
                 | Some n \<Rightarrow>
                     (Returned,
                      w2\<lparr>files := (files w2)(tar_path \<mapsto> File (tar_add B (basename folder) n))\<rparr>)))"

text \<open>
  \<^verbatim>\<open>os.makedirs(dest_dir, exist_ok=True)\<close> raises when the destination is a regular file.
\<close>

definition makedirs :: "path \<Rightarrow> step" where
  "makedirs p w =
     (case files w p of
        None \<Rightarrow> (Returned, w\<lparr>files := (files w)(p \<mapsto> Dir [])\<rparr>)
      | Some (Dir es) \<Rightarrow> (Returned, w)
      | Some (File bs) \<Rightarrow> (Raised FileExistsError, w))"

definition tar_unpack :: "('c, 'd) backend \<Rightarrow> path \<Rightarrow> path \<Rightarrow> step" where
  "tar_unpack B tar_path dest_dir w =
     andthen (makedirs dest_dir)
       (\<lambda>w0. let w1 = print (Tar_unpacking dest_dir) w0
             in case read_bytes w1 tar_path of
                  Inl e \<Rightarrow> (Raised e, w1)
                | Inr bs \<Rightarrow>
                    (case files w1 dest_dir of
                       Some (Dir es) \<Rightarrow>
                         (let r = tar_extractall B bs es;
                              w2 = w1\<lparr>files := (files w1)(dest_dir \<mapsto> Dir (snd r))\<rparr>
                          in if fst r then (Returned, w2) else (Raised BundleError, w2))
                     | _ \<Rightarrow> (Raised FileNotFoundError, w1)))
       w"

section \<open>Archive Orchestrator\<close>

text \<open>
  The arguments as \<^verbatim>\<open>parse_args\<close> delivers them; the command line and its parser are not
  modelled. \<^verbatim>\<open>main\<close> below follows the source statement by statement: the mode check,
  the three values read from the paths, the extension check, the two branches and the
  benchmark block. The time stamps of the benchmark are left out.
\<close>

record args =
  compress :: bool
  "extract" :: bool
  source :: path
  target :: path
  benchmark :: bool
  progress :: bool

text \<open>The block after the two branches: sizes of source and target as they are now.\<close>

definition benchmark_block :: "args \<Rightarrow> step" where
  "benchmark_block a w =
     (if benchmark a
      then (let in_size = calc_size w (source a);
                out_size = calc_size w (target a)
            in (Returned, print (Stats in_size out_size) w))
      else (Returned, w))"

definition main :: "('c, 'd) backend \<Rightarrow> args \<Rightarrow> step" where
  "main B a w =
     (if compress a = extract a then sys_exit 1 (print Mode_hint w)
      else
        (let src = source a;
             dst = target a;
             src_is_dir = is_dir w src;
             is_tar_target = (length (suffixes dst) = 2 \<and> suffixes dst ! 0 = ''.tar'');
             ext = (if compress a then suffix dst else suffix src)
         in if ext \<notin> set [''.zst'', ''.bz2''] then sys_exit 1 (print Format_hint w)
            else
              andthen
                (if compress a then
                   (let input_obj = (if src_is_dir then ''tmp_data.tar'' else src)
                    in andthen
                         (if src_is_dir then
                            (if \<not> is_tar_target
                             then (\<lambda>w'. sys_exit 1 (print Dir_target_hint w'))
                             else tar_build B src ''tmp_data.tar'')
                          else skip)
                         (andthen
                            (if ext = ''.zst''
                             then zstd_compress B input_obj dst (progress a)
                             else bz2_compress B input_obj dst (progress a))
                            (\<lambda>w'. if src_is_dir \<and> exists w' ''tmp_data.tar''
                                  then remove ''tmp_data.tar'' w'
                                  else skip w')))
                 else
                   (let is_tar_src = (length (suffixes src) = 2 \<and> suffixes src ! 0 = ''.tar'')
                    in if is_tar_src then
                         (let temp_tar = ''tmp_unpack.tar''
                          in andthen
                               (if ext = ''.zst''
                                then zstd_decompress B src temp_tar (progress a)
                                else bz2_decompress B src temp_tar (progress a))
                               (andthen (tar_unpack B temp_tar dst) (remove temp_tar)))
                       else
                         (if ext = ''.zst''
                          then zstd_decompress B src dst (progress a)
                          else bz2_decompress B src dst (progress a))))
                (benchmark_block a)
                w))"

section \<open>The contract of a codec pass, in the specification's words\<close>

text \<open>
  Cutting a buffer into consecutive pieces of \<open>k\<close> bytes, the last one shorter when the
  length is not a multiple of \<open>k\<close>.
\<close>

function chunks_of :: "nat \<Rightarrow> 'a list \<Rightarrow> 'a list list" where
  "chunks_of k xs = (if xs = [] \<or> k = 0 then [] else take k xs # chunks_of k (drop k xs))"
  by pat_completeness auto
termination
  by (relation "measure (\<lambda>(k, xs). length xs)") auto

text \<open>The bytes consumed after each piece, counting from \<open>i\<close>.\<close>

fun done_marks :: "nat \<Rightarrow> 'a list list \<Rightarrow> nat list" where
  "done_marks i [] = []"
| "done_marks i (c # cs) = (i + length c) # done_marks (i + length c) cs"

text \<open>One compressor fed the pieces in order; the stream ends with what \<open>flush\<close> drains.\<close>

fun zc_run :: "('c, 'd) backend \<Rightarrow> 'c \<Rightarrow> byte list list \<Rightarrow> 'c \<times> byte list" where
  "zc_run B c [] = (c, [])"
| "zc_run B c (p # ps) =
     (let r = zc_compress B c p; r' = zc_run B (fst r) ps in (fst r', snd r @ snd r'))"

definition zstd_stream :: "('c, 'd) backend \<Rightarrow> byte list list \<Rightarrow> byte list" where
  "zstd_stream B cs = (let r = zc_run B (zc_new B) cs in snd r @ zc_flush B (fst r))"

text \<open>One decompressor fed the blocks in order; \<open>None\<close> when it rejects one of them.\<close>

fun zd_run :: "('c, 'd) backend \<Rightarrow> 'd \<Rightarrow> byte list list \<Rightarrow> byte list option" where
  "zd_run B d [] = Some []"
| "zd_run B d (b # bs) =
     (case zd_decompress B d b of
        None \<Rightarrow> None
      | Some r \<Rightarrow> (case zd_run B (fst r) bs of None \<Rightarrow> None | Some out \<Rightarrow> Some (snd r @ out)))"

text \<open>How many blocks the decompressor takes before it rejects one.\<close>

fun zd_accepted :: "('c, 'd) backend \<Rightarrow> 'd \<Rightarrow> byte list list \<Rightarrow> nat" where
  "zd_accepted B d [] = 0"
| "zd_accepted B d (b # bs) =
     (case zd_decompress B d b of None \<Rightarrow> 0 | Some r \<Rightarrow> Suc (zd_accepted B (fst r) bs))"

text \<open>The reporter called once for each mark, in order.\<close>

definition report_all :: "label \<Rightarrow> nat \<Rightarrow> nat list \<Rightarrow> world \<Rightarrow> world" where
  "report_all lab n ds w = foldl (\<lambda>w' d. pacman_progress (int d) (int n) lab w') w ds"

text \<open>What a run added to the ghost trace and to standard output.\<close>

definition reported :: "world \<Rightarrow> world \<Rightarrow> (int \<times> int \<times> label) list" where
  "reported w w' = drop (length (reports w)) (reports w')"


text \<open>The four codec passes of the program, by their progress label.\<close>

fun codec_pass :: "('c, 'd) backend \<Rightarrow> label \<Rightarrow> path \<Rightarrow> path \<Rightarrow> bool \<Rightarrow> step" where
  "codec_pass B Zstd_pack = zstd_compress B"
| "codec_pass B Zstd_unpack = zstd_decompress B"
| "codec_pass B Bz2_pack = bz2_compress B"
| "codec_pass B Bz2_unpack = bz2_decompress B"

text \<open>What a pass writes for the bytes it reads; \<open>None\<close> when the library rejects them.\<close>

fun transform :: "('c, 'd) backend \<Rightarrow> label \<Rightarrow> byte list \<Rightarrow> byte list option" where
  "transform B Zstd_pack data = Some (zstd_stream B (chunks_of chunk data))"
| "transform B Zstd_unpack data = zd_run B (zd_new B) (chunks_of chunk data)"
| "transform B Bz2_pack data = Some (bz2_compress_all B data)"
| "transform B Bz2_unpack data = bz2_decompress_all B data"

definition unpack_label :: "string \<Rightarrow> label" where
  "unpack_label ext = (if ext = ''.zst'' then Zstd_unpack else Bz2_unpack)"

definition pack_label :: "string \<Rightarrow> label" where
  "pack_label ext = (if ext = ''.zst'' then Zstd_pack else Bz2_pack)"

text \<open>
  The one property of a codec the round trip needs, for one buffer: what the packing pass
  writes for it, the unpacking pass turns back into it.
\<close>

definition restores :: "('c, 'd) backend \<Rightarrow> string \<Rightarrow> byte list \<Rightarrow> bool" where
  "restores B ext data =
     (case transform B (pack_label ext) data of
        None \<Rightarrow> False
      | Some z \<Rightarrow> transform B (unpack_label ext) z = Some data)"

text \<open>
  The same of the libraries alone, whatever the cutting into pieces: a stream the
  compressor produced from non-empty pieces, fed to a fresh decompressor in non-empty
  blocks, gives the pieces back; the one-shot functions of bz2 invert each other.
\<close>

definition zstd_faithful :: "('c, 'd) backend \<Rightarrow> bool" where
  "zstd_faithful B =
     (\<forall>cs bs. [] \<notin> set cs \<longrightarrow> [] \<notin> set bs \<longrightarrow> concat bs = zstd_stream B cs \<longrightarrow>
        zd_run B (zd_new B) bs = Some (concat cs))"

definition bz2_faithful :: "('c, 'd) backend \<Rightarrow> bool" where
  "bz2_faithful B = (\<forall>data. bz2_decompress_all B (bz2_compress_all B data) = Some data)"

text \<open>
  Standard output only grows; a run is quiet when it printed no unpacking notice.
\<close>

definition grows :: "world \<Rightarrow> world \<Rightarrow> bool" where
  "grows w w' = (\<exists>xs. stdout w' = stdout w @ xs)"

definition quiet :: "world \<Rightarrow> world \<Rightarrow> bool" where
  "quiet w w' = (\<exists>xs. stdout w' = stdout w @ xs \<and> (\<forall>d. Tar_unpacking d \<notin> set xs))"

text \<open>The shape of a bundle name: exactly two suffixes, \<^verbatim>\<open>.tar\<close> first.\<close>

definition tar_shaped :: "path \<Rightarrow> bool" where
  "tar_shaped p = (length (suffixes p) = 2 \<and> suffixes p ! 0 = ''.tar'')"

definition codec_ext :: "string \<Rightarrow> bool" where
  "codec_ext e = (e = ''.zst'' \<or> e = ''.bz2'')"

section \<open>A small backend to run the program on\<close>

text \<open>
  Stand-ins for the libraries, to evaluate the program on concrete inputs: codecs that
  store the bytes behind a one-byte header and reject a stream without it, and a bundle
  format that writes a tree as tags, lengths and contents.
\<close>

fun toy_enc :: "node \<Rightarrow> byte list" where
  "toy_enc (File bs) = 0 # of_nat (length bs) # bs"
| "toy_enc (Dir es) =
     1 # of_nat (length es) #
       concat (map (\<lambda>e. of_nat (length (fst e)) # map (\<lambda>c. of_nat (of_char c)) (fst e)
                            @ toy_enc (snd e)) es)"

fun toy_dec :: "nat \<Rightarrow> byte list \<Rightarrow> (node \<times> byte list) option"
  and toy_dec_entries ::
    "nat \<Rightarrow> nat \<Rightarrow> byte list \<Rightarrow> ((string \<times> node) list \<times> byte list) option" where
  "toy_dec 0 bs = None"
| "toy_dec (Suc f) bs =
     (case bs of
        t # l # rest \<Rightarrow>
          if t = 0 then
            (if unat l \<le> length rest
             then Some (File (take (unat l) rest), drop (unat l) rest) else None)
          else if t = 1 then
            (case toy_dec_entries f (unat l) rest of
               None \<Rightarrow> None
             | Some r \<Rightarrow> Some (Dir (fst r), snd r))
          else None
      | _ \<Rightarrow> None)"
| "toy_dec_entries 0 k bs = None"
| "toy_dec_entries (Suc f) k bs =
     (if k = 0 then Some ([], bs)
      else case bs of
        [] \<Rightarrow> None
      | l # rest \<Rightarrow>
          if unat l \<le> length rest then
            (case toy_dec f (drop (unat l) rest) of
               None \<Rightarrow> None
             | Some r \<Rightarrow>
                 (case toy_dec_entries f (k - 1) (snd r) of
                    None \<Rightarrow> None
                  | Some r' \<Rightarrow>
                      Some ((map (\<lambda>b. char_of (unat b)) (take (unat l) rest), fst r) # fst r',
                            snd r')))
          else None)"

definition toy_extractall ::
  "byte list \<Rightarrow> (string \<times> node) list \<Rightarrow> bool \<times> (string \<times> node) list" where
  "toy_extractall bs ds =
     (case toy_dec (length bs) bs of
        Some (Dir es, []) \<Rightarrow> (True, filter (\<lambda>x. fst x \<notin> set (map fst es)) ds @ es)
      | _ \<Rightarrow> (False, ds))"

definition toy_backend :: "(bool, bool) backend" where
  "toy_backend =
     \<lparr>zc_new = False,
      zc_compress = (\<lambda>st bs. (True, (if st then [] else [90]) @ bs)),
      zc_flush = (\<lambda>st. if st then [] else [90]),
      zd_new = False,
      zd_decompress =
        (\<lambda>st bs. if st then Some (True, bs)
                  else (case bs of
                          [] \<Rightarrow> Some (False, [])
                        | b # r \<Rightarrow> if b = 90 then Some (True, r) else None)),
      bz2_compress_all = (\<lambda>bs. 66 # bs),
      bz2_decompress_all = (\<lambda>bs. case bs of [] \<Rightarrow> None | b # r \<Rightarrow> if b = 66 then Some r else None),
      tar_add = (\<lambda>name n. toy_enc (Dir [(name, n)])),
      tar_blank = toy_enc (Dir []),
      tar_extractall = toy_extractall\<rparr>"

definition disk :: "filesystem \<Rightarrow> world" where
  "disk fs = \<lparr>files = fs, stdout = [], reports = []\<rparr>"

definition invocation :: "bool \<Rightarrow> bool \<Rightarrow> path \<Rightarrow> path \<Rightarrow> bool \<Rightarrow> bool \<Rightarrow> args" where
  "invocation c x s t b p =
     \<lparr>compress = c, extract = x, source = s, target = t, benchmark = b, progress = p\<rparr>"

section \<open>Suffixes\<close>

lemma split_on_not_Nil: "split_on c xs \<noteq> []"
  by (induction xs) (auto split: list.splits)

lemma tl_split_on_Nil: "tl (split_on c xs) = [] \<longleftrightarrow> c \<notin> set xs"
  by (induction xs) (auto split: list.splits simp: split_on_not_Nil)

lemma last_split_on: "last (split_on c xs) = rev (takeWhile (\<lambda>x. x \<noteq> c) (rev xs))"
proof (induction xs)
  case Nil
  show ?case by simp
next
  case (Cons x xs)
  show ?case
  proof (cases "x = c")
    case True
    then show ?thesis
      using Cons by (simp add: split_on_not_Nil takeWhile_tail)
  next
    case False
    obtain p ps where sp: "split_on c xs = p # ps"
      using split_on_not_Nil [of c xs] by (cases "split_on c xs") auto
    show ?thesis
    proof (cases "c \<in> set xs")
      case True
      then have "ps \<noteq> []"
        using tl_split_on_Nil [of c xs] sp by simp
      moreover have "takeWhile (\<lambda>x. x \<noteq> c) (rev xs @ [x]) = takeWhile (\<lambda>x. x \<noteq> c) (rev xs)"
        using True by (intro takeWhile_append1 [where x = c]) auto
      ultimately show ?thesis
        using Cons sp False by simp
    next
      case notin: False
      then have ps: "ps = []"
        using tl_split_on_Nil [of c xs] sp by simp
      have t1: "takeWhile (\<lambda>x. x \<noteq> c) (rev xs) = rev xs"
        by (rule iffD2 [OF takeWhile_eq_all_conv]) (use notin in auto)
      have t2: "takeWhile (\<lambda>x. x \<noteq> c) (rev xs @ [x]) = rev xs @ [x]"
        by (rule iffD2 [OF takeWhile_eq_all_conv]) (use notin False in auto)
      have "p = xs"
        using Cons sp ps by (simp add: t1)
      then show ?thesis
        using sp False ps by (simp add: t2)
    qed
  qed
qed

lemma suffix_last_suffixes: "suffixes p \<noteq> [] \<Longrightarrow> suffix p = last (suffixes p)"
  unfolding suffixes_def suffix_def Let_def
  by (simp add: tl_split_on_Nil last_map last_tl last_split_on)

lemma suffix_of_two: "suffixes p = [x, y] \<Longrightarrow> suffix p = y"
  using suffix_last_suffixes [of p] by simp

lemma many_suffixes:
  "3 \<le> length (suffixes p) \<Longrightarrow> codec_ext (last (suffixes p)) \<Longrightarrow>
   codec_ext (suffix p) \<and> \<not> tar_shaped p"
proof -
  assume n: "3 \<le> length (suffixes p)" and c: "codec_ext (last (suffixes p))"
  have "suffixes p \<noteq> []" using n by auto
  then have "suffix p = last (suffixes p)" by (rule suffix_last_suffixes)
  then show ?thesis using n c by (simp add: tar_shaped_def)
qed

lemma suffix_tmp_data: "suffix ''tmp_data.tar'' = ''.tar''"
  by code_simp

lemma suffix_examples:
  "suffix ''name.tar.gz'' = ''.gz''" "suffix ''proj.zst'' = ''.zst''"
  "suffixes ''proj.zst'' = [''.zst'']"
  by code_simp+

section \<open>Resolution failures\<close>

text \<open>
  C6, mode exclusivity. When \<^verbatim>\<open>-c\<close> and \<^verbatim>\<open>-x\<close> are both given or both missing, the run
  ends with exit status 1, and all it did to the world is print the hint: the files are
  as they were, whatever they were, and nothing else was printed or reported.
\<close>

theorem mode_exclusivity:
  "compress a = extract a \<Longrightarrow> main B a w = (Exited 1, print Mode_hint w)"
  by (simp add: main_def sys_exit_def)

theorem mode_exclusivity_witness:
  "compress (invocation True True ''f.txt'' ''f.zst'' False False)
     = extract (invocation True True ''f.txt'' ''f.zst'' False False)
   \<and> main toy_backend (invocation True True ''f.txt'' ''f.zst'' False False)
        (disk [''f.txt'' \<mapsto> File [1, 2, 3]])
     = (Exited 1, print Mode_hint (disk [''f.txt'' \<mapsto> File [1, 2, 3]]))
   \<and> compress (invocation False False ''f.zst'' ''f.txt'' True True)
     = extract (invocation False False ''f.zst'' ''f.txt'' True True)
   \<and> main toy_backend (invocation False False ''f.zst'' ''f.txt'' True True)
        (disk [''f.zst'' \<mapsto> File [90, 1]])
     = (Exited 1, print Mode_hint (disk [''f.zst'' \<mapsto> File [90, 1]]))"
  using mode_exclusivity [of "invocation True True ''f.txt'' ''f.zst'' False False" toy_backend
      "disk [''f.txt'' \<mapsto> File [1, 2, 3]]"]
    mode_exclusivity [of "invocation False False ''f.zst'' ''f.txt'' True True" toy_backend
      "disk [''f.zst'' \<mapsto> File [90, 1]]"]
  by (simp add: invocation_def)

text \<open>
  C5, extension gating. When the extension of the compressed artifact (of the target
  when compressing, of the source otherwise) is neither \<^verbatim>\<open>.zst\<close> nor \<^verbatim>\<open>.bz2\<close>, the run
  ends with exit status 1 and all it did is print one hint; \<^verbatim>\<open>name.tar.gz\<close> is such a
  name, its \<^verbatim>\<open>.tar\<close> notwithstanding.
\<close>

theorem extension_gating:
  assumes "\<not> codec_ext (if compress a then suffix (target a) else suffix (source a))"
  shows "main B a w
     = (Exited 1, print (if compress a = extract a then Mode_hint else Format_hint) w)"
proof (cases "compress a = extract a")
  case True
  then show ?thesis by (simp add: main_def sys_exit_def)
next
  case False
  then show ?thesis
    using assms by (cases "compress a") (simp_all add: main_def sys_exit_def codec_ext_def)
qed

theorem extension_gating_witness:
  "\<not> codec_ext (if compress (invocation True False ''f.txt'' ''name.tar.gz'' False True)
                 then suffix (target (invocation True False ''f.txt'' ''name.tar.gz'' False True))
                 else suffix (source (invocation True False ''f.txt'' ''name.tar.gz'' False True)))
   \<and> main toy_backend (invocation True False ''f.txt'' ''name.tar.gz'' False True)
        (disk [''f.txt'' \<mapsto> File [1, 2, 3]])
     = (Exited 1, print Format_hint (disk [''f.txt'' \<mapsto> File [1, 2, 3]]))"
  using extension_gating [of "invocation True False ''f.txt'' ''name.tar.gz'' False True"
      toy_backend "disk [''f.txt'' \<mapsto> File [1, 2, 3]]"]
  by (simp add: invocation_def codec_ext_def suffix_examples)

text \<open>
  C4, a directory needs a bundle target. Compressing a directory into a target that is
  not of the form \<^verbatim>\<open>name.tar.zst\<close> or \<^verbatim>\<open>name.tar.bz2\<close> (exactly two suffixes, the first
  \<^verbatim>\<open>.tar\<close>, the second a codec's) ends with exit status 1, and all it did is print one
  hint: no file was created and nothing was compressed.
\<close>

theorem bundle_target_required:
  assumes "compress a" and "is_dir w (source a)"
    and "\<not> (tar_shaped (target a) \<and> codec_ext (suffix (target a)))"
  shows "main B a w
     = (Exited 1,
        print (if extract a then Mode_hint
               else if \<not> codec_ext (suffix (target a)) then Format_hint
               else Dir_target_hint) w)"
proof (cases "extract a")
  case True
  then show ?thesis using assms by (simp add: main_def sys_exit_def)
next
  case mode: False
  show ?thesis
  proof (cases "codec_ext (suffix (target a))")
    case False
    then show ?thesis
      using assms mode by (simp add: main_def sys_exit_def codec_ext_def)
  next
    case True
    then have "\<not> tar_shaped (target a)" using assms by simp
    then show ?thesis
      using assms(1,2) mode True
      by (auto simp add: main_def sys_exit_def codec_ext_def tar_shaped_def andthen_def Let_def)
  qed
qed

theorem bundle_target_required_witness:
  "compress (invocation True False ''proj'' ''proj.zst'' False False)
   \<and> is_dir (disk [''proj'' \<mapsto> Dir [(''a.txt'', File [1, 2])]])
        (source (invocation True False ''proj'' ''proj.zst'' False False))
   \<and> \<not> (tar_shaped (target (invocation True False ''proj'' ''proj.zst'' False False))
        \<and> codec_ext (suffix (target (invocation True False ''proj'' ''proj.zst'' False False))))
   \<and> main toy_backend (invocation True False ''proj'' ''proj.zst'' False False)
        (disk [''proj'' \<mapsto> Dir [(''a.txt'', File [1, 2])]])
     = (Exited 1, print Dir_target_hint (disk [''proj'' \<mapsto> Dir [(''a.txt'', File [1, 2])]]))"
  using bundle_target_required [of "invocation True False ''proj'' ''proj.zst'' False False"
      "disk [''proj'' \<mapsto> Dir [(''a.txt'', File [1, 2])]]" toy_backend]
  by (simp add: invocation_def codec_ext_def tar_shaped_def suffix_examples is_dir_def disk_def)

section \<open>The size of a path\<close>

lemma sum_files_entries:
  "(\<And>e. e \<in> set es \<Longrightarrow> f (snd e # rglob (snd e)) = tree_bytes (snd e)) \<Longrightarrow>
   (\<And>xs ys. f (xs @ ys) = f xs + f ys) \<Longrightarrow> f [] = 0 \<Longrightarrow>
   f (concat (map (\<lambda>e. snd e # rglob (snd e)) es)) = sum_list (map (\<lambda>e. tree_bytes (snd e)) es)"
proof (induction es)
  case Nil
  then show ?case by simp
next
  case (Cons e es)
  have "f (concat (map (\<lambda>e. snd e # rglob (snd e)) (e # es)))
      = f (snd e # rglob (snd e)) + f (concat (map (\<lambda>e. snd e # rglob (snd e)) es))"
    using Cons.prems(2) [of "snd e # rglob (snd e)"] by simp
  also have "f (snd e # rglob (snd e)) = tree_bytes (snd e)"
    using Cons.prems(1) [of e] by simp
  also have "f (concat (map (\<lambda>e. snd e # rglob (snd e)) es))
      = sum_list (map (\<lambda>e. tree_bytes (snd e)) es)"
    using Cons.IH Cons.prems by simp
  finally show ?case by simp
qed

lemma sum_files_below:
  "sum_list (map st_size (filter node_is_file (n # rglob n))) = tree_bytes n"
proof (induction n)
  case (File bs)
  show ?case by simp
next
  case (Dir es)
  define f where "f = (\<lambda>ns. sum_list (map st_size (filter node_is_file ns)))"
  have each: "\<And>e. e \<in> set es \<Longrightarrow> f (snd e # rglob (snd e)) = tree_bytes (snd e)"
  proof -
    fix e assume "e \<in> set es"
    moreover have "snd e \<in> Basic_BNFs.snds e"
      by (cases e) simp
    ultimately show "f (snd e # rglob (snd e)) = tree_bytes (snd e)"
      unfolding f_def by (rule Dir)
  qed
  have "f (concat (map (\<lambda>e. snd e # rglob (snd e)) es))
      = sum_list (map (\<lambda>e. tree_bytes (snd e)) es)"
    by (rule sum_files_entries [OF each]) (simp_all add: f_def)
  then show ?case by (simp add: f_def)
qed

text \<open>
  C9, Size Inspector. \<^verbatim>\<open>calc_size\<close> is 0 for a path that does not exist, the number of
  bytes of a regular file, and for a directory the sum over the regular files of its
  tree, a directory adding nothing of its own.
\<close>

theorem size_inspector:
  "calc_size w p = (case files w p of None \<Rightarrow> 0 | Some n \<Rightarrow> tree_bytes n)"
proof (cases "files w p")
  case None
  then show ?thesis by (simp add: calc_size_def is_file_def is_dir_def)
next
  case (Some n)
  show ?thesis
  proof (cases n)
    case (File bs)
    then show ?thesis using Some by (simp add: calc_size_def is_file_def)
  next
    case (Dir es)
    then show ?thesis
      using Some sum_files_below [of n]
      by (simp add: calc_size_def is_file_def is_dir_def)
  qed
qed

section \<open>The width of the bar\<close>

lemma int_div_less_bound: "0 < (t::int) \<Longrightarrow> a < k * t \<Longrightarrow> a div t < k"
proof -
  assume t: "0 < t" and a: "a < k * t"
  have "(a - k * t) div t < 0"
    using t a by (simp add: pos_imp_zdiv_neg_iff)
  moreover have "(a - k * t) div t = a div t - k"
    using t div_mult_self1 [of t a "- k"] by simp
  ultimately show ?thesis by simp
qed

lemma int_of_scaled_nonneg:
  "0 \<le> dn \<Longrightarrow> 0 < tot \<Longrightarrow> int_of_scaled 30 dn tot = (30 * dn) div tot"
  by (cases "dn = 0") (simp_all add: int_of_scaled_def)

lemma progress_bar_length:
  assumes "0 < tot" and "0 \<le> dn" and "dn \<le> tot"
  shows "length (progress_bar dn tot) = (if dn = tot then 31 else 30)"
proof -
  have f: "int_of_scaled 30 dn tot = (30 * dn) div tot"
    using assms by (simp add: int_of_scaled_nonneg)
  have lo: "0 \<le> (30 * dn) div tot"
    using assms by (simp add: pos_imp_zdiv_nonneg_iff)
  show ?thesis
  proof (cases "dn = tot")
    case True
    then have "(30 * dn) div tot = 30" using assms by simp
    then show ?thesis using True f by (simp add: progress_bar_def)
  next
    case False
    then have "30 * dn < 30 * tot" using assms by simp
    then have "(30 * dn) div tot < 30"
      using assms by (intro int_div_less_bound) simp_all
    then show ?thesis using False f lo by (simp add: progress_bar_def Let_def)
  qed
qed

text \<open>
  What the reporter draws. For \<open>total > 0\<close> and \<open>0 \<le> done \<le> total\<close> it writes one bar (and
  a newline after it when \<open>done = total\<close>); the bar is the filled cells, the pac symbol and
  the empty cells. While \<open>done < total\<close> that is 30 cells; at \<open>done = total\<close> all 30 cells
  are filled and the pac symbol is a 31st.
\<close>

theorem bar_width:
  assumes "0 < tot" and "0 \<le> dn" and "dn \<le> tot"
  shows "stdout (pacman_progress dn tot lab w)
           = stdout w @ Bar lab (progress_bar dn tot) dn tot # (if dn = tot then [Newline] else [])
       \<and> progress_bar dn tot
           = replicate (nat (30 * dn div tot)) Filled @ [Pac]
               @ replicate (29 - nat (30 * dn div tot)) Blank
       \<and> length (progress_bar dn tot) = (if dn = tot then 31 else 30)"
proof -
  have f: "int_of_scaled 30 dn tot = (30 * dn) div tot"
    using assms by (simp add: int_of_scaled_nonneg)
  have lo: "0 \<le> (30 * dn) div tot"
    using assms by (simp add: pos_imp_zdiv_nonneg_iff)
  have out: "stdout (pacman_progress dn tot lab w)
      = stdout w @ Bar lab (progress_bar dn tot) dn tot # (if dn = tot then [Newline] else [])"
    using assms by (simp add: pacman_progress_def print_def Let_def)
  have cells: "progress_bar dn tot
      = replicate (nat (30 * dn div tot)) Filled @ [Pac]
          @ replicate (29 - nat (30 * dn div tot)) Blank"
  proof -
    define k where "k = 30 * dn div tot"
    have "nat (if 0 < 30 - k then 30 - k - 1 else 0) = 29 - nat k"
      using lo unfolding k_def [symmetric] by (cases "k < 30") (simp_all add: nat_diff_distrib')
    then show ?thesis
      unfolding progress_bar_def f Let_def k_def [symmetric] by simp
  qed
  show ?thesis
    using out cells progress_bar_length [OF assms] by simp
qed

theorem bar_width_witness:
  "(0::int) < 7 \<and> (0::int) \<le> 3 \<and> (3::int) \<le> 7
   \<and> length (progress_bar 3 7) = 30
   \<and> progress_bar 3 7 = replicate 12 Filled @ [Pac] @ replicate 17 Blank
   \<and> length (progress_bar 7 7) = 31
   \<and> progress_bar 7 7 = replicate 30 Filled @ [Pac]"
  using bar_width [of 7 3 Zstd_pack "disk Map.empty"] bar_width [of 7 7 Zstd_pack "disk Map.empty"]
  by simp

text \<open>
  C8, the width of the bar. The source sets \<^verbatim>\<open>width = 30\<close> and gives one empty cell up
  for the pac symbol, so that the cells add up to 30; at completion there is no empty
  cell to give up. The call \<^verbatim>\<open>pacman_progress(1, 1, label)\<close> draws 30 filled cells and
  the pac symbol after them: 31 cells between the brackets, where the bar is to have 30.
\<close>

theorem bar_at_completion:
  "length (progress_bar 1 1) = 31
   \<and> stdout (pacman_progress 1 1 Zstd_pack (disk Map.empty))
       = [Bar Zstd_pack (replicate 30 Filled @ [Pac]) 1 1, Newline]"
  by (simp add: progress_bar_def pacman_progress_def int_of_scaled_def print_def disk_def)

section \<open>The codec loops\<close>

declare chunks_of.simps [simp del]
declare zstd_compress_loop.simps [simp del]
declare zstd_decompress_loop.simps [simp del]

lemma chunk_pos: "0 < chunk"
  by (simp add: chunk_def)

lemma chunks_of_Nil: "chunks_of k [] = []"
  by (simp add: chunks_of.simps)

lemma chunks_of_step:
  "xs \<noteq> [] \<Longrightarrow> 0 < k \<Longrightarrow> chunks_of k xs = take k xs # chunks_of k (drop k xs)"
  by (subst chunks_of.simps) simp

lemma concat_chunks_of: "0 < k \<Longrightarrow> concat (chunks_of k xs) = xs"
proof (induction k xs rule: chunks_of.induct)
  case (1 k xs)
  show ?case
  proof (cases "xs = []")
    case True
    then show ?thesis by (simp add: chunks_of_Nil)
  next
    case False
    then show ?thesis
      using 1 by (simp add: chunks_of_step)
  qed
qed

lemma chunks_of_sizes:
  "0 < k \<Longrightarrow> c \<in> set (chunks_of k xs) \<Longrightarrow> 0 < length c \<and> length c \<le> k"
proof (induction k xs rule: chunks_of.induct)
  case (1 k xs)
  show ?case
  proof (cases "xs = []")
    case True
    then show ?thesis using 1 by (simp add: chunks_of_Nil)
  next
    case False
    then show ?thesis
      using 1 by (auto simp add: chunks_of_step)
  qed
qed

lemma chunks_of_full:
  "0 < k \<Longrightarrow> c \<in> set (butlast (chunks_of k xs)) \<Longrightarrow> length c = k"
proof (induction k xs rule: chunks_of.induct)
  case (1 k xs)
  show ?case
  proof (cases "xs = []")
    case True
    then show ?thesis using 1 by (simp add: chunks_of_Nil)
  next
    case False
    show ?thesis
    proof (cases "drop k xs = []")
      case True
      then show ?thesis
        using 1 False by (simp add: chunks_of_step chunks_of_Nil)
    next
      case more: False
      then have "chunks_of k (drop k xs) \<noteq> []"
        using 1(2) by (simp add: chunks_of_step [of "drop k xs"])
      then show ?thesis
        using 1 False more by (auto simp add: chunks_of_step [of xs])
    qed
  qed
qed


lemma report_all_Nil: "report_all lab n [] w = w"
  by (simp add: report_all_def)

lemma report_all_Cons:
  "report_all lab n (d # ds) w = report_all lab n ds (pacman_progress (int d) (int n) lab w)"
  by (simp add: report_all_def)

lemma files_pacman_progress: "files (pacman_progress dn tot lab w) = files w"
  by (simp add: pacman_progress_def print_def Let_def)

lemma reports_pacman_progress:
  "reports (pacman_progress dn tot lab w) = reports w @ [(dn, tot, lab)]"
  by (simp add: pacman_progress_def print_def Let_def)

lemma files_report_all: "files (report_all lab n ds w) = files w"
  by (induction ds arbitrary: w) (simp_all add: report_all_Nil report_all_Cons files_pacman_progress)

lemma reports_report_all:
  "reports (report_all lab n ds w) = reports w @ map (\<lambda>d. (int d, int n, lab)) ds"
  by (induction ds arbitrary: w)
     (simp_all add: report_all_Nil report_all_Cons reports_pacman_progress)

lemma done_marks_shift:
  "length (take chunk (drop i data)) \<noteq> chunk \<Longrightarrow> chunks_of chunk (drop (i + chunk) data) = []"
proof -
  assume "length (take chunk (drop i data)) \<noteq> chunk"
  then have "length data - i < chunk" by (simp add: min_def split: if_splits)
  then have "drop (i + chunk) data = []" by simp
  then show ?thesis by (simp add: chunks_of_Nil)
qed

lemma zstd_compress_loop_run:
  "tot = length data \<Longrightarrow>
   zstd_compress_loop B data tot sp i c out w
     = (fst (zc_run B c (chunks_of chunk (drop i data))),
        out @ snd (zc_run B c (chunks_of chunk (drop i data))),
        (if sp then report_all Zstd_pack tot (done_marks i (chunks_of chunk (drop i data))) w
         else w))"
proof (induction B data tot sp i c out w rule: zstd_compress_loop.induct)
  case (1 B data tot sp i c out w)
  show ?case
  proof (cases "i < tot")
    case False
    then have "drop i data = []" using 1(2) by simp
    then show ?thesis
      using False by (simp add: zstd_compress_loop.simps [of B data tot sp i] chunks_of_Nil report_all_Nil)
  next
    case True
    let ?part = "take chunk (drop i data)"
    let ?rest = "chunks_of chunk (drop (i + chunk) data)"
    have ne: "drop i data \<noteq> []" using True 1(2) by simp
    have cs: "chunks_of chunk (drop i data) = ?part # ?rest"
      using ne chunk_pos by (simp add: chunks_of_step add.commute)
    have marks: "done_marks (i + length ?part) ?rest = done_marks (i + chunk) ?rest"
    proof (cases "length ?part = chunk")
      case True
      then show ?thesis by simp
    next
      case False
      then show ?thesis using done_marks_shift [of i data] by simp
    qed
    note IH = 1(1) [OF True refl refl refl refl 1(2)]
    show ?thesis
      by (subst zstd_compress_loop.simps)
         (simp add: True IH cs marks report_all_Cons Let_def del: length_take)
  qed
qed




lemma zstd_decompress_loop_run:
  "tot = length data \<Longrightarrow>
   zstd_decompress_loop B data tot sp i d out w
     = ((case zd_run B d (chunks_of chunk (drop i data)) of
           None \<Rightarrow> Inl CodecError
         | Some r \<Rightarrow> Inr (out @ r)),
        (if sp
         then report_all Zstd_unpack tot
                (take (zd_accepted B d (chunks_of chunk (drop i data)))
                   (done_marks i (chunks_of chunk (drop i data)))) w
         else w))"
proof (induction B data tot sp i d out w rule: zstd_decompress_loop.induct)
  case (1 B data tot sp i d out w)
  show ?case
  proof (cases "i < tot")
    case False
    then have "drop i data = []" using 1(2) by simp
    then show ?thesis
      using False
      by (simp add: zstd_decompress_loop.simps [of B data tot sp i] chunks_of_Nil report_all_Nil)
  next
    case True
    let ?block = "take chunk (drop i data)"
    let ?rest = "chunks_of chunk (drop (i + chunk) data)"
    have ne: "drop i data \<noteq> []" using True 1(2) by simp
    have cs: "chunks_of chunk (drop i data) = ?block # ?rest"
      using ne chunk_pos by (simp add: chunks_of_step add.commute)
    have marks: "done_marks (i + length ?block) ?rest = done_marks (i + chunk) ?rest"
    proof (cases "length ?block = chunk")
      case True
      then show ?thesis by simp
    next
      case False
      then show ?thesis using done_marks_shift [of i data] by simp
    qed
    show ?thesis
    proof (cases "zd_decompress B d ?block")
      case None
      then show ?thesis
        by (subst zstd_decompress_loop.simps)
           (simp add: True cs report_all_Nil Let_def del: length_take)
    next
      case (Some r)
      note IH = 1(1) [OF True refl Some refl refl 1(2)]
      show ?thesis
        by (subst zstd_decompress_loop.simps)
           (simp add: True Some IH cs marks report_all_Cons Let_def del: length_take
                 split: option.splits)
    qed
  qed
qed

lemma read_bytes_File: "files w p = Some (File bs) \<Longrightarrow> read_bytes w p = Inr bs"
  by (simp add: read_bytes_def)

lemma zstd_compress_run:
  assumes "files w src = Some (File data)"
  shows "zstd_compress B src dst sp w
     = andthen (write_bytes dst (zstd_stream B (chunks_of chunk data)))
         (\<lambda>w2. (Returned, if sp then print (Finished Zstd_pack) w2 else w2))
         (if sp then report_all Zstd_pack (length data) (done_marks 0 (chunks_of chunk data)) w
          else w)"
  using assms
  by (simp add: zstd_compress_def read_bytes_File zstd_compress_loop_run zstd_stream_def Let_def)

lemma zstd_decompress_run:
  assumes "files w src = Some (File data)"
  shows "zstd_decompress B src dst sp w
     = (let cs = chunks_of chunk data;
            w1 = (if sp
                  then report_all Zstd_unpack (length data)
                         (take (zd_accepted B (zd_new B) cs) (done_marks 0 cs)) w
                  else w)
        in case zd_run B (zd_new B) cs of
             None \<Rightarrow> (Raised CodecError, w1)
           | Some out \<Rightarrow>
               andthen (write_bytes dst out)
                 (\<lambda>w2. (Returned, if sp then print (Finished Zstd_unpack) w2 else w2))
                 w1)"
  using assms
  by (simp add: zstd_decompress_def read_bytes_File zstd_decompress_loop_run Let_def
           split: option.splits)


lemma reports_print: "reports (print m w) = reports w"
  by (simp add: print_def)

lemma reports_write_bytes: "reports (snd (write_bytes p bs w)) = reports w"
  by (simp add: write_bytes_def split: option.splits node.splits)



lemma reported_append: "reports w' = reports w @ rs \<Longrightarrow> reported w w' = rs"
  by (simp add: reported_def)


section \<open>Progress of a pass\<close>


lemma chunks_two: "chunks_of chunk (replicate 262145 (0::byte)) = [replicate 262144 0, [0]]"
proof -
  have a: "chunks_of chunk (replicate 262145 (0::byte))
      = take chunk (replicate 262145 0) # chunks_of chunk (drop chunk (replicate 262145 0))"
    by (rule chunks_of_step) (simp_all add: chunk_def)
  have b: "drop chunk (replicate 262145 (0::byte)) = [0]"
    by (simp add: chunk_def)
  have c: "chunks_of chunk [0::byte] = [[0]]"
    using chunks_of_step [of "[0::byte]" chunk] by (simp add: chunks_of_Nil chunk_def)
  show ?thesis
    unfolding a b c by (simp add: chunk_def)
qed


section \<open>The compression direction\<close>

lemma chunk_value: "chunk = 262144"
  by (simp add: chunk_def)

lemma write_bytes_ok:
  "\<not> is_dir w p \<Longrightarrow> write_bytes p bs w = (Returned, w\<lparr>files := (files w)(p \<mapsto> File bs)\<rparr>)"
  by (simp add: write_bytes_def is_dir_def split: option.splits node.splits)

lemma is_dir_report_all: "is_dir (report_all lab n ds w) p = is_dir w p"
  by (simp add: is_dir_def files_report_all)

text \<open>
  C3, the compression direction, as the code has it. For zstd: a fresh compressor is fed
  the input in consecutive chunks of 262144 bytes (the last one shorter, none empty), the
  compressed pieces are appended in order, what \<^verbatim>\<open>flush\<close> drains is appended last, and
  only then is the output file written; with progress on, the reporter is called after
  each chunk with the bytes consumed so far and the total. For bz2: the whole input goes
  through one call of the library's one-shot function, the output file is written, and
  with progress on the reporter is called once, with \<open>(n, n)\<close>.
\<close>

theorem compression_direction:
  assumes "files w src = Some (File data)" and "\<not> is_dir w dst"
  shows "zstd_compress B src dst sp w
      = (let cs = chunks_of 262144 data;
             w1 = (if sp then report_all Zstd_pack (length data) (done_marks 0 cs) w else w);
             w2 = w1\<lparr>files := (files w1)(dst \<mapsto> File (zstd_stream B cs))\<rparr>
         in (Returned, if sp then print (Finished Zstd_pack) w2 else w2))
    \<and> concat (chunks_of 262144 data) = data
    \<and> (\<forall>c \<in> set (chunks_of 262144 data). 0 < length c \<and> length c \<le> 262144)
    \<and> (\<forall>c \<in> set (butlast (chunks_of 262144 data)). length c = 262144)
    \<and> reports (report_all Zstd_pack (length data) (done_marks 0 (chunks_of 262144 data)) w)
        = reports w @ map (\<lambda>d. (int d, int (length data), Zstd_pack))
                        (done_marks 0 (chunks_of 262144 data))
    \<and> bz2_compress B src dst sp w
      = (let w1 = w\<lparr>files := (files w)(dst \<mapsto> File (bz2_compress_all B data))\<rparr>
         in (Returned,
             if sp
             then print (Finished Bz2_pack)
                    (pacman_progress (int (length data)) (int (length data)) Bz2_pack w1)
             else w1))"
proof -
  have z: "zstd_compress B src dst sp w
      = (let cs = chunks_of chunk data;
             w1 = (if sp then report_all Zstd_pack (length data) (done_marks 0 cs) w else w);
             w2 = w1\<lparr>files := (files w1)(dst \<mapsto> File (zstd_stream B cs))\<rparr>
         in (Returned, if sp then print (Finished Zstd_pack) w2 else w2))"
    using assms(2)
    by (simp add: zstd_compress_run [OF assms(1)] andthen_def write_bytes_ok is_dir_report_all
          Let_def)
  have b: "bz2_compress B src dst sp w
      = (let w1 = w\<lparr>files := (files w)(dst \<mapsto> File (bz2_compress_all B data))\<rparr>
         in (Returned,
             if sp
             then print (Finished Bz2_pack)
                    (pacman_progress (int (length data)) (int (length data)) Bz2_pack w1)
             else w1))"
    using assms(2)
    by (simp add: bz2_compress_def read_bytes_File [OF assms(1)] andthen_def write_bytes_ok
          Let_def)
  have c1: "concat (chunks_of chunk data) = data"
    by (rule concat_chunks_of [OF chunk_pos])
  have c2: "\<forall>c \<in> set (chunks_of chunk data). 0 < length c \<and> length c \<le> chunk"
    using chunks_of_sizes [OF chunk_pos] by blast
  have c3: "\<forall>c \<in> set (butlast (chunks_of chunk data)). length c = chunk"
    using chunks_of_full [OF chunk_pos] by blast
  show ?thesis
    using z b c1 c2 c3 unfolding chunk_value by (simp add: reports_report_all)
qed

lemma chunks_small: "chunks_of 262144 [1, 2, 3 :: byte] = [[1, 2, 3]]"
  using chunks_of_step [of "[1, 2, 3 :: byte]" 262144] by (simp add: chunks_of_Nil)

theorem compression_direction_witness:
  "files (disk [''f.txt'' \<mapsto> File [1, 2, 3]]) ''f.txt'' = Some (File [1, 2, 3])
   \<and> \<not> is_dir (disk [''f.txt'' \<mapsto> File [1, 2, 3]]) ''f.zst''
   \<and> fst (zstd_compress toy_backend ''f.txt'' ''f.zst'' True (disk [''f.txt'' \<mapsto> File [1, 2, 3]]))
       = Returned
   \<and> files (snd (zstd_compress toy_backend ''f.txt'' ''f.zst'' True
                   (disk [''f.txt'' \<mapsto> File [1, 2, 3]]))) ''f.zst''
       = Some (File [90, 1, 2, 3])
   \<and> reports (snd (zstd_compress toy_backend ''f.txt'' ''f.zst'' True
                   (disk [''f.txt'' \<mapsto> File [1, 2, 3]])))
       = [(3, 3, Zstd_pack)]
   \<and> files (snd (bz2_compress toy_backend ''f.txt'' ''f.zst'' True
                   (disk [''f.txt'' \<mapsto> File [1, 2, 3]]))) ''f.zst''
       = Some (File [66, 1, 2, 3])
   \<and> reports (snd (bz2_compress toy_backend ''f.txt'' ''f.zst'' True
                   (disk [''f.txt'' \<mapsto> File [1, 2, 3]])))
       = [(3, 3, Bz2_pack)]"
proof -
  let ?w = "disk [''f.txt'' \<mapsto> File [1, 2, 3]]"
  have src: "files ?w ''f.txt'' = Some (File [1, 2, 3])"
    by (simp add: disk_def)
  have dst: "\<not> is_dir ?w ''f.zst''"
    by (simp add: disk_def is_dir_def)
  have st: "zstd_stream toy_backend [[1, 2, 3]] = [90, 1, 2, 3]"
    by (simp add: zstd_stream_def toy_backend_def)
  have bz: "bz2_compress_all toy_backend [1, 2, 3] = [66, 1, 2, 3]"
    by (simp add: toy_backend_def)
  have r0: "reports ?w = []"
    by (simp add: disk_def)
  show ?thesis
    using compression_direction [OF src dst, of toy_backend True] src dst
    by (simp add: chunks_small st bz r0 files_report_all reports_report_all
          print_def files_pacman_progress reports_pacman_progress Let_def)
qed

text \<open>
  C3 as the specification states it fails for bz2: on an input of 262145 bytes, one byte more than a
  chunk, \<^verbatim>\<open>bz2_compress\<close> reports once, where reporting after each chunk of 262144 bytes
  gives two reports.
\<close>

theorem bz2_not_chunked:
  "reported (disk [''big'' \<mapsto> File (replicate 262145 0)])
      (snd (bz2_compress toy_backend ''big'' ''big.bz2'' True
              (disk [''big'' \<mapsto> File (replicate 262145 0)])))
     = [(262145, 262145, Bz2_pack)]
   \<and> map (\<lambda>d. (int d, 262145, Bz2_pack)) (done_marks 0 (chunks_of 262144 (replicate 262145 (0::byte))))
     = [(262144, 262145, Bz2_pack), (262145, 262145, Bz2_pack)]"
proof -
  let ?w = "disk [''big'' \<mapsto> File (replicate 262145 0)]"
  have src: "files ?w ''big'' = Some (File (replicate 262145 0))"
    by (simp add: disk_def)
  have "reports (snd (bz2_compress toy_backend ''big'' ''big.bz2'' True ?w))
      = reports ?w @ [(262145, 262145, Bz2_pack)]"
    by (simp add: bz2_compress_def read_bytes_File [OF src] andthen_def write_bytes_def
          reports_print reports_pacman_progress)
       (simp add: disk_def reports_print reports_pacman_progress)
  then have a: "reported ?w (snd (bz2_compress toy_backend ''big'' ''big.bz2'' True ?w))
      = [(262145, 262145, Bz2_pack)]"
    by (rule reported_append)
  have b: "done_marks 0 (chunks_of 262144 (replicate 262145 (0::byte))) = [262144, 262145]"
    using chunks_two by (simp add: chunk_value)
  show ?thesis
    using a b by simp
qed

section \<open>What a run prints and which files it touches\<close>

lemma quiet_refl: "quiet w w"
  by (simp add: quiet_def)






lemma quiet_print: "(\<And>d. m \<noteq> Tar_unpacking d) \<Longrightarrow> quiet w (print m w)"
  by (auto simp add: quiet_def print_def)







lemma quiet_finish: "quiet w (snd (Returned, if sp then print (Finished lab) w else w))"
  by (simp add: quiet_print quiet_refl)

lemma read_bytes_cases:
  "(\<exists>data. files w p = Some (File data) \<and> read_bytes w p = Inr data) \<or> (\<exists>e. read_bytes w p = Inl e)"
  by (simp add: read_bytes_def split: option.splits node.splits)







lemma files_benchmark_block: "files (snd (benchmark_block a w)) = files w"
  by (simp add: benchmark_block_def print_def Let_def)

lemma fst_benchmark_block: "fst (benchmark_block a w) = Returned"
  by (simp add: benchmark_block_def Let_def)


lemma files_print: "files (print m w) = files w"
  by (simp add: print_def)

lemma pass_shape:
  assumes ok: "files w src = Some (File data)"
  shows "\<exists>W G. files W = files w \<and> (\<forall>u. files (G u) = files u)
           \<and> codec_pass B lab src dst sp w
               = (case transform B lab data of
                    None \<Rightarrow> (Raised CodecError, W)
                  | Some out \<Rightarrow> andthen (write_bytes dst out) (\<lambda>u. (Returned, G u)) W)"
proof (cases lab)
  case Zstd_pack
  show ?thesis
    unfolding Zstd_pack
    by (rule exI [of _ "if sp then report_all Zstd_pack (length data)
                           (done_marks 0 (chunks_of chunk data)) w else w"],
        rule exI [of _ "\<lambda>u. if sp then print (Finished Zstd_pack) u else u"])
       (simp add: zstd_compress_run [OF ok] files_report_all files_print)
next
  case Zstd_unpack
  show ?thesis
    unfolding Zstd_unpack
    by (rule exI [of _ "if sp then report_all Zstd_unpack (length data)
                           (take (zd_accepted B (zd_new B) (chunks_of chunk data))
                              (done_marks 0 (chunks_of chunk data))) w else w"],
        rule exI [of _ "\<lambda>u. if sp then print (Finished Zstd_unpack) u else u"])
       (simp add: zstd_decompress_run [OF ok] files_report_all files_print Let_def)
next
  case Bz2_pack
  show ?thesis
    unfolding Bz2_pack
    by (rule exI [of _ w],
        rule exI [of _ "\<lambda>u. if sp then print (Finished Bz2_pack)
             (pacman_progress (int (length data)) (int (length data)) Bz2_pack u) else u"])
       (simp add: bz2_compress_def read_bytes_File [OF ok] files_print files_pacman_progress)
next
  case Bz2_unpack
  show ?thesis
    unfolding Bz2_unpack
    by (rule exI [of _ w],
        rule exI [of _ "\<lambda>u. if sp then print (Finished Bz2_unpack)
             (pacman_progress (int (length data)) (int (length data)) Bz2_unpack u) else u"])
       (simp add: bz2_decompress_def read_bytes_File [OF ok] files_print files_pacman_progress)
qed

lemma pass_unreadable:
  "read_bytes w src = Inl e \<Longrightarrow> codec_pass B lab src dst sp w = (Raised e, w)"
  by (cases lab)
     (simp_all add: zstd_compress_def zstd_decompress_def bz2_compress_def bz2_decompress_def)

lemma pass_outcome:
  assumes "codec_pass B lab src dst sp w = (s, w')"
  shows "(s = Returned \<longrightarrow>
            (\<exists>data out. files w src = Some (File data) \<and> transform B lab data = Some out
                \<and> files w' = (files w)(dst \<mapsto> File out)))
       \<and> (s \<noteq> Returned \<longrightarrow> files w' = files w)"
proof -
  consider (ok) data where "files w src = Some (File data)" | (bad) e where "read_bytes w src = Inl e"
    using read_bytes_cases [of w src] by blast
  then show ?thesis
  proof cases
    case bad
    then show ?thesis using assms by (auto simp add: pass_unreadable)
  next
    case ok
    obtain W G where W: "files W = files w" and G: "\<forall>u. files (G u) = files u"
      and run: "codec_pass B lab src dst sp w
               = (case transform B lab data of
                    None \<Rightarrow> (Raised CodecError, W)
                  | Some out \<Rightarrow> andthen (write_bytes dst out) (\<lambda>u. (Returned, G u)) W)"
      using pass_shape [OF ok] by blast
    show ?thesis
    proof (cases "transform B lab data")
      case None
      then show ?thesis using assms run W by auto
    next
      case (Some out)
      show ?thesis
        using assms run W G ok Some
        by (auto simp add: andthen_def write_bytes_def split: option.splits node.splits)
    qed
  qed
qed

lemma pass_success:
  assumes ok: "files w src = Some (File data)" and dst: "\<not> is_dir w dst"
    and tr: "transform B lab data = Some out"
  shows "fst (codec_pass B lab src dst sp w) = Returned
       \<and> files (snd (codec_pass B lab src dst sp w)) = (files w)(dst \<mapsto> File out)"
proof -
  obtain W G where W: "files W = files w" and G: "\<forall>u. files (G u) = files u"
    and run: "codec_pass B lab src dst sp w
             = (case transform B lab data of
                  None \<Rightarrow> (Raised CodecError, W)
                | Some out \<Rightarrow> andthen (write_bytes dst out) (\<lambda>u. (Returned, G u)) W)"
    using pass_shape [OF ok] by blast
  have "\<not> is_dir W dst" using dst W by (simp add: is_dir_def)
  then show ?thesis
    using run tr W G by (simp add: andthen_def write_bytes_ok)
qed

lemma pass_others:
  "q \<noteq> dst \<Longrightarrow> files (snd (codec_pass B lab src dst sp w)) q = files w q"
proof -
  assume q: "q \<noteq> dst"
  obtain s w' where r: "codec_pass B lab src dst sp w = (s, w')"
    by (cases "codec_pass B lab src dst sp w")
  show ?thesis
    using pass_outcome [OF r] q r by (cases "s = Returned") auto
qed


lemma andthen_skip_left: "andthen skip f = f"
  by (rule ext) (simp add: andthen_def skip_def)

lemma andthen_skip_right: "andthen f (\<lambda>w'. skip w') = f"
proof (rule ext)
  fix w
  show "andthen f (\<lambda>w'. skip w') w = f w"
    by (cases "f w"; cases "fst (f w)") (simp_all add: andthen_def skip_def)
qed

lemma andthen_exit: "andthen (\<lambda>w'. sys_exit n (print m w')) g = (\<lambda>w'. sys_exit n (print m w'))"
  by (rule ext) (simp add: andthen_def sys_exit_def)

lemma main_extract:
  assumes "extract a" and "\<not> compress a" and "codec_ext (suffix (source a))"
  shows "main B a w
     = andthen
         (if tar_shaped (source a)
          then andthen
                 (codec_pass B (unpack_label (suffix (source a))) (source a) ''tmp_unpack.tar''
                    (progress a))
                 (andthen (tar_unpack B ''tmp_unpack.tar'' (target a)) (remove ''tmp_unpack.tar''))
          else codec_pass B (unpack_label (suffix (source a))) (source a) (target a) (progress a))
         (benchmark_block a) w"
  using assms
  by (auto simp add: main_def codec_ext_def tar_shaped_def unpack_label_def Let_def)

lemma main_compress:
  assumes "compress a" and "\<not> extract a" and "codec_ext (suffix (target a))"
  shows "main B a w
     = andthen
         (if is_dir w (source a)
          then (if \<not> tar_shaped (target a)
                then (\<lambda>w'. sys_exit 1 (print Dir_target_hint w'))
                else andthen (tar_build B (source a) ''tmp_data.tar'')
                       (andthen
                          (codec_pass B (pack_label (suffix (target a))) ''tmp_data.tar'' (target a)
                             (progress a))
                          (\<lambda>w'. if exists w' ''tmp_data.tar''
                                then remove ''tmp_data.tar'' w' else skip w')))
          else codec_pass B (pack_label (suffix (target a))) (source a) (target a) (progress a))
         (benchmark_block a) w"
  using assms
  by (auto simp add: main_def codec_ext_def tar_shaped_def pack_label_def Let_def
        andthen_skip_left andthen_skip_right andthen_exit)


lemma grows_print: "grows w (print m w)"
  by (simp add: grows_def print_def)







lemma andthen_benchmark:
  "fst (andthen f (benchmark_block a) w) = fst (f w)
   \<and> files (snd (andthen f (benchmark_block a) w)) = files (snd (f w))"
proof (cases "f w")
  case (Pair s w1)
  then show ?thesis
    using fst_benchmark_block [of a w1] files_benchmark_block [of a w1]
    by (cases s) (simp_all add: andthen_def)
qed

lemma andthen_Returned:
  "f w = (Returned, w1) \<Longrightarrow> andthen f g w = g w1"
  by (simp add: andthen_def)

lemma andthen_assoc: "andthen (andthen f g) h = andthen f (andthen g h)"
proof (rule ext)
  fix w
  show "andthen (andthen f g) h w = andthen f (andthen g h) w"
    by (cases "f w"; cases "fst (f w)") (simp_all add: andthen_def)
qed

section \<open>Extraction: bundle or single file\<close>


section \<open>Running the orchestrator\<close>

lemma chunks_of_short: "xs \<noteq> [] \<Longrightarrow> length xs \<le> k \<Longrightarrow> chunks_of k xs = [xs]"
  using chunks_of_step [of xs k] by (cases "k = 0") (simp_all add: chunks_of_Nil)

lemma is_dir_files: "files w' p = files w p \<Longrightarrow> is_dir w' p = is_dir w p"
  by (simp add: is_dir_def)

lemma pass_eval:
  assumes "files w src = Some (File data)" and "\<not> is_dir w dst"
    and "transform B lab data = Some out"
  shows "\<exists>w1. codec_pass B lab src dst sp w = (Returned, w1)
           \<and> files w1 = (files w)(dst \<mapsto> File out)"
  using pass_success [OF assms, of sp]
  by (cases "codec_pass B lab src dst sp w") auto

lemma benchmark_eval:
  "f w = (s, w1) \<Longrightarrow>
   fst (andthen f (benchmark_block a) w) = s
   \<and> files (snd (andthen f (benchmark_block a) w)) = files w1"
  using andthen_benchmark [of f a w] by simp



lemma suffix_tmp_unpack: "suffix ''tmp_unpack.tar'' = ''.tar''"
  by code_simp

lemma codec_ext_not_tmp:
  "codec_ext (suffix p) \<Longrightarrow> p \<noteq> ''tmp_data.tar'' \<and> p \<noteq> ''tmp_unpack.tar''"
  using suffix_tmp_data suffix_tmp_unpack by (auto simp add: codec_ext_def)

lemma tar_build_eval:
  assumes "files w folder = Some n" and "\<not> is_dir w tar_path" and "folder \<noteq> tar_path"
  shows "\<exists>w1. tar_build B folder tar_path w = (Returned, w1)
           \<and> files w1 = (files w)(tar_path \<mapsto> File (tar_add B (basename folder) n))"
  using assms
  by (auto simp add: tar_build_def print_def is_dir_def Let_def split: option.splits node.splits)

lemma compress_dir_ok:
  assumes mode: "compress a" "\<not> extract a" and ext: "codec_ext (suffix (target a))"
    and shaped: "tar_shaped (target a)"
    and src: "files w (source a) = Some (Dir es)"
    and tmp: "\<not> is_dir w ''tmp_data.tar''" and dst: "\<not> is_dir w (target a)"
    and tr: "transform B (pack_label (suffix (target a)))
               (tar_add B (basename (source a)) (Dir es)) = Some z"
  shows "fst (main B a w) = Returned
       \<and> files (snd (main B a w)) = ((files w)(target a \<mapsto> File z))(''tmp_data.tar'' := None)"
proof -
  let ?tmp = "''tmp_data.tar''"
  let ?tb = "tar_add B (basename (source a)) (Dir es)"
  have dir: "is_dir w (source a)" using src by (simp add: is_dir_def)
  have ne: "source a \<noteq> ?tmp" using src tmp by (auto simp add: is_dir_def)
  have ne2: "target a \<noteq> ?tmp" using codec_ext_not_tmp [OF ext] by simp
  obtain w1 where b: "tar_build B (source a) ?tmp w = (Returned, w1)"
    and f1: "files w1 = (files w)(?tmp \<mapsto> File ?tb)"
    using tar_build_eval [OF src tmp ne] by blast
  have s1: "files w1 ?tmp = Some (File ?tb)" using f1 by simp
  have d1: "\<not> is_dir w1 (target a)" using dst f1 ne2 by (simp add: is_dir_def)
  obtain w2 where p: "codec_pass B (pack_label (suffix (target a))) ?tmp (target a)
        (progress a) w1 = (Returned, w2)"
    and f2: "files w2 = (files w1)(target a \<mapsto> File z)"
    using pass_eval [OF s1 d1 tr] by blast
  have ex: "exists w2 ?tmp" using f2 f1 ne2 by (simp add: exists_def)
  have rm: "remove ?tmp w2 = (Returned, w2\<lparr>files := (files w2)(?tmp := None)\<rparr>)"
    using f2 f1 ne2 by (simp add: remove_def)
  let ?run = "andthen (tar_build B (source a) ?tmp)
        (andthen (codec_pass B (pack_label (suffix (target a))) ?tmp (target a) (progress a))
           (\<lambda>w'. if exists w' ?tmp then remove ?tmp w' else skip w'))"
  have chain: "?run w = (Returned, w2\<lparr>files := (files w2)(?tmp := None)\<rparr>)"
    using b p ex rm by (simp add: andthen_def)
  have fin: "(files w2)(?tmp := None) = ((files w)(target a \<mapsto> File z))(?tmp := None)"
    using f2 f1 by auto
  show ?thesis
    using benchmark_eval [of ?run w Returned _ a, OF chain] dir shaped fin
    by (simp add: main_compress [OF mode ext])
qed

lemma tar_unpack_eval:
  assumes "files w tar_path = Some (File tb)" and "\<not> is_file w dest"
    and "tar_extractall B tb (case files w dest of Some (Dir es) \<Rightarrow> es | _ \<Rightarrow> []) = (True, es')"
  shows "\<exists>w1. tar_unpack B tar_path dest w = (Returned, w1)
           \<and> files w1 = (files w)(dest \<mapsto> Dir es')"
proof (cases "files w dest")
  case None
  then have "tar_path \<noteq> dest" using assms(1) by auto
  then show ?thesis
    using assms None
    by (simp add: tar_unpack_def andthen_def makedirs_def print_def read_bytes_def Let_def)
next
  case (Some d)
  then obtain es where d: "d = Dir es" using assms(2) by (cases d) (simp_all add: is_file_def)
  then have "tar_path \<noteq> dest" using assms(1) Some by auto
  then show ?thesis
    using assms Some d
    by (simp add: tar_unpack_def andthen_def makedirs_def print_def read_bytes_def Let_def)
qed

lemma extract_bundle_ok:
  assumes mode: "extract a" "\<not> compress a" and ext: "codec_ext (suffix (source a))"
    and shaped: "tar_shaped (source a)"
    and src: "files w (source a) = Some (File z)"
    and tmp: "\<not> is_dir w ''tmp_unpack.tar''"
    and tr: "transform B (unpack_label (suffix (source a))) z = Some tb"
    and dst: "\<not> is_file w (target a)" "target a \<noteq> ''tmp_unpack.tar''"
    and tar: "tar_extractall B tb (case files w (target a) of Some (Dir es) \<Rightarrow> es | _ \<Rightarrow> [])
                = (True, es')"
  shows "fst (main B a w) = Returned
       \<and> files (snd (main B a w))
           = ((files w)(target a \<mapsto> Dir es'))(''tmp_unpack.tar'' := None)"
proof -
  let ?tmp = "''tmp_unpack.tar''"
  obtain w1 where p: "codec_pass B (unpack_label (suffix (source a))) (source a) ?tmp
        (progress a) w = (Returned, w1)"
    and f1: "files w1 = (files w)(?tmp \<mapsto> File tb)"
    using pass_eval [OF src tmp tr] by blast
  have s1: "files w1 ?tmp = Some (File tb)" using f1 by simp
  have d1: "\<not> is_file w1 (target a)" using dst f1 by (simp add: is_file_def)
  have same: "files w1 (target a) = files w (target a)" using dst f1 by simp
  obtain w2 where u: "tar_unpack B ?tmp (target a) w1 = (Returned, w2)"
    and f2: "files w2 = (files w1)(target a \<mapsto> Dir es')"
    using tar_unpack_eval [OF s1 d1] tar unfolding same by blast
  have rm: "remove ?tmp w2 = (Returned, w2\<lparr>files := (files w2)(?tmp := None)\<rparr>)"
    using f2 f1 dst by (simp add: remove_def)
  let ?run = "andthen
        (codec_pass B (unpack_label (suffix (source a))) (source a) ?tmp (progress a))
        (andthen (tar_unpack B ?tmp (target a)) (remove ?tmp))"
  have chain: "?run w = (Returned, w2\<lparr>files := (files w2)(?tmp := None)\<rparr>)"
    using p u rm by (simp add: andthen_def)
  have fin: "(files w2)(?tmp := None) = ((files w)(target a \<mapsto> Dir es'))(?tmp := None)"
    using f2 f1 by auto
  show ?thesis
    using benchmark_eval [of ?run w Returned _ a, OF chain] shaped fin
    by (simp add: main_extract [OF mode ext])
qed

section \<open>The small backend at work\<close>

lemma toy_zc_run_started: "zc_run toy_backend True cs = (True, concat cs)"
  by (induction cs) (simp_all add: toy_backend_def)

lemma toy_zstd_stream: "zstd_stream toy_backend cs = 90 # concat cs"
proof (cases cs)
  case Nil
  then show ?thesis by (simp add: zstd_stream_def toy_backend_def)
next
  case (Cons c cs')
  have "zc_run toy_backend False (c # cs') = (True, 90 # c @ concat cs')"
    using toy_zc_run_started [of cs'] by (simp add: toy_backend_def)
  then show ?thesis
    using Cons by (simp add: zstd_stream_def) (simp add: toy_backend_def)
qed

lemma toy_zd_run_started: "zd_run toy_backend True bs = Some (concat bs)"
  by (induction bs) (simp_all add: toy_backend_def)

lemma toy_zd_run: "concat bs = 90 # xs \<Longrightarrow> zd_run toy_backend False bs = Some xs"
proof (induction bs)
  case Nil
  then show ?case by simp
next
  case (Cons b bs)
  show ?case
  proof (cases b)
    case Nil
    then show ?thesis using Cons by (simp add: toy_backend_def)
  next
    case (Cons y ys)
    then have "y = 90" and "xs = ys @ concat bs" using Cons.prems by simp_all
    then show ?thesis
      using Cons toy_zd_run_started [of bs] by (simp add: toy_backend_def)
  qed
qed

lemma toy_transform:
  "transform toy_backend Zstd_pack xs = Some (90 # xs)"
  "transform toy_backend Zstd_unpack (90 # xs) = Some xs"
  "transform toy_backend Bz2_pack xs = Some (66 # xs)"
  "transform toy_backend Bz2_unpack (66 # xs) = Some xs"
proof -
  show "transform toy_backend Zstd_pack xs = Some (90 # xs)"
    by (simp add: toy_zstd_stream concat_chunks_of [OF chunk_pos])
  have "zd_new toy_backend = False" by (simp add: toy_backend_def)
  then show "transform toy_backend Zstd_unpack (90 # xs) = Some xs"
    by (simp add: toy_zd_run [OF concat_chunks_of [OF chunk_pos]])
  show "transform toy_backend Bz2_pack xs = Some (66 # xs)"
    by (simp add: toy_backend_def)
  show "transform toy_backend Bz2_unpack (66 # xs) = Some xs"
    by (simp add: toy_backend_def)
qed

lemma toy_faithful: "zstd_faithful toy_backend \<and> bz2_faithful toy_backend"
proof -
  have "zd_new toy_backend = False" by (simp add: toy_backend_def)
  then have "zstd_faithful toy_backend"
    by (simp add: zstd_faithful_def toy_zstd_stream toy_zd_run)
  moreover have "bz2_faithful toy_backend"
    by (simp add: bz2_faithful_def toy_backend_def)
  ultimately show ?thesis by simp
qed

lemma toy_tar_example:
  "tar_extractall toy_backend
     (tar_add toy_backend ''proj'' (Dir [(''a.txt'', File [1, 2]), (''b'', Dir [(''c.txt'', File [3])])])) []
   = (True, [(''proj'', Dir [(''a.txt'', File [1, 2]), (''b'', Dir [(''c.txt'', File [3])])])])"
  by code_simp

lemma name_examples:
  "codec_ext (suffix ''proj.tar.zst'')" "tar_shaped ''proj.tar.zst''"
  "suffix ''proj.tar.zst'' = ''.zst''"
  "codec_ext (suffix ''proj.tar.bz2'')" "tar_shaped ''proj.tar.bz2''"
  "suffix ''proj.tar.bz2'' = ''.bz2''"
  "codec_ext (suffix ''a.b.tar.zst'')" "\<not> tar_shaped ''a.b.tar.zst''"
  "suffix ''a.b.tar.zst'' = ''.zst''" "length (suffixes ''a.b.tar.zst'') = 3"
  "codec_ext (suffix ''f.zst'')" "\<not> tar_shaped ''f.zst''" "suffix ''f.zst'' = ''.zst''"
  "codec_ext (suffix ''f.bz2'')" "\<not> tar_shaped ''f.bz2''" "suffix ''f.bz2'' = ''.bz2''"
  "codec_ext (suffix ''f.tar.zst'')" "tar_shaped ''f.tar.zst''" "suffix ''f.tar.zst'' = ''.zst''"
  "basename ''proj'' = ''proj''"
  by code_simp+


section \<open>The transient archive\<close>

lemma andthen_Returned_iff:
  "andthen f g w = (Returned, w') \<longleftrightarrow> (\<exists>w1. f w = (Returned, w1) \<and> g w1 = (Returned, w'))"
  by (cases "f w"; cases "fst (f w)") (auto simp add: andthen_def)

lemma remove_Returned: "remove p w = (Returned, w') \<Longrightarrow> files w' p = None"
  by (auto simp add: remove_def split: option.splits node.splits)

lemma benchmark_Returned: "benchmark_block a w = (s, w') \<Longrightarrow> files w' = files w"
  using files_benchmark_block [of a w] by simp

lemma main_Returned_mode:
  "main B a w = (Returned, w') \<Longrightarrow>
   compress a \<noteq> extract a
   \<and> codec_ext (if compress a then suffix (target a) else suffix (source a))"
  by (cases "compress a = extract a";
      cases "codec_ext (if compress a then suffix (target a) else suffix (source a))")
     (auto simp add: main_def sys_exit_def codec_ext_def Let_def split: if_splits)

lemma tar_build_post:
  "tar_build B folder tar_path w = (Returned, w1) \<Longrightarrow>
   (\<exists>bs. files w1 tar_path = Some (File bs)) \<and> (\<forall>q. q \<noteq> tar_path \<longrightarrow> files w1 q = files w q)"
  by (auto simp add: tar_build_def print_def Let_def split: option.splits node.splits)

lemma tar_unpack_others:
  "q \<noteq> dst \<Longrightarrow> files (snd (tar_unpack B tmp dst v)) q = files v q"
  by (auto simp add: tar_unpack_def andthen_def makedirs_def print_def Let_def
        split: option.splits node.splits sum.splits)

lemma tar_unpack_onto_file:
  "files v dst = Some (File bs) \<Longrightarrow> tar_unpack B tmp dst v = (Raised FileExistsError, v)"
  by (simp add: tar_unpack_def andthen_def makedirs_def)

lemma remove_File:
  "files v p = Some (File bs) \<Longrightarrow> remove p v = (Returned, v\<lparr>files := (files v)(p := None)\<rparr>)"
  by (simp add: remove_def)

lemma andthen_benchmark_eq:
  "andthen f (benchmark_block a) w = (s, w') \<Longrightarrow> fst (f w) = s \<and> files (snd (f w)) = files w'"
  using andthen_benchmark [of f a w] by simp

lemma pass_blocked:
  assumes ok: "files w src = Some (File data)" and dst: "is_dir w dst"
    and tr: "transform B lab data = Some out"
  shows "fst (codec_pass B lab src dst sp w) = Raised IsADirectoryError
       \<and> files (snd (codec_pass B lab src dst sp w)) = files w"
proof -
  obtain W G where W: "files W = files w"
    and run: "codec_pass B lab src dst sp w
             = (case transform B lab data of
                  None \<Rightarrow> (Raised CodecError, W)
                | Some out \<Rightarrow> andthen (write_bytes dst out) (\<lambda>u. (Returned, G u)) W)"
    using pass_shape [OF ok] by blast
  obtain es where "files W dst = Some (Dir es)"
    using dst W by (auto simp add: is_dir_def split: option.splits node.splits)
  then show ?thesis
    using run tr W by (simp add: andthen_def write_bytes_def)
qed

text \<open>
  C2, the transient archive, as the code has it. After a run that returns, the archive
  is gone: \<^verbatim>\<open>tmp_data.tar\<close> when a directory was compressed, \<^verbatim>\<open>tmp_unpack.tar\<close> when a
  bundle was extracted. The removal is the last statement of its branch and nothing
  catches an exception: a run that does not return, after \<^verbatim>\<open>tar_build\<close> has built
  \<^verbatim>\<open>tmp_data.tar\<close> or after the decompression pass has written \<^verbatim>\<open>tmp_unpack.tar\<close>, leaves
  the archive on disk.
\<close>

theorem transient_archive:
  assumes run: "main B a w = (s, w')"
  shows "(s = Returned \<longrightarrow> compress a \<longrightarrow> is_dir w (source a) \<longrightarrow>
            files w' ''tmp_data.tar'' = None)
       \<and> (s = Returned \<longrightarrow> extract a \<longrightarrow> tar_shaped (source a) \<longrightarrow>
            files w' ''tmp_unpack.tar'' = None)
       \<and> (s \<noteq> Returned \<longrightarrow> compress a \<longrightarrow> \<not> extract a \<longrightarrow> is_dir w (source a) \<longrightarrow>
            codec_ext (suffix (target a)) \<longrightarrow> tar_shaped (target a) \<longrightarrow>
            fst (tar_build B (source a) ''tmp_data.tar'' w) = Returned \<longrightarrow>
            files w' ''tmp_data.tar'' \<noteq> None)
       \<and> (s \<noteq> Returned \<longrightarrow> extract a \<longrightarrow> \<not> compress a \<longrightarrow> tar_shaped (source a) \<longrightarrow>
            codec_ext (suffix (source a)) \<longrightarrow>
            fst (codec_pass B (unpack_label (suffix (source a))) (source a) ''tmp_unpack.tar''
                   (progress a) w) = Returned \<longrightarrow>
            files w' ''tmp_unpack.tar'' \<noteq> None)"
proof (intro conjI impI)
  assume ok: "s = Returned" and c: "compress a" and d: "is_dir w (source a)"
  have run': "main B a w = (Returned, w')" using run ok by simp
  have mode: "\<not> extract a" and ext: "codec_ext (suffix (target a))"
    using main_Returned_mode [OF run'] c by auto
  show "files w' ''tmp_data.tar'' = None"
  proof (cases "tar_shaped (target a)")
    case False
    then have "fst (main B a w) = Exited 1"
      using d by (simp add: main_compress [OF c mode ext] andthen_def sys_exit_def)
    then show ?thesis using run' by simp
  next
    case True
    then obtain w1 w2 w3 where
      "tar_build B (source a) ''tmp_data.tar'' w = (Returned, w1)"
      and "codec_pass B (pack_label (suffix (target a))) ''tmp_data.tar'' (target a)
             (progress a) w1 = (Returned, w2)"
      and last: "(if exists w2 ''tmp_data.tar'' then remove ''tmp_data.tar'' w2 else skip w2)
             = (Returned, w3)"
      and b: "benchmark_block a w3 = (Returned, w')"
      using run' d unfolding main_compress [OF c mode ext]
      by (auto simp add: andthen_Returned_iff)
    have "files w3 ''tmp_data.tar'' = None"
      using last remove_Returned [of "''tmp_data.tar''" w2 w3]
      by (auto simp add: exists_def skip_def split: if_splits)
    then show ?thesis using benchmark_Returned [OF b] by simp
  qed
next
  assume ok: "s = Returned" and x: "extract a" and t: "tar_shaped (source a)"
  have run': "main B a w = (Returned, w')" using run ok by simp
  have mode: "\<not> compress a" and ext: "codec_ext (suffix (source a))"
    using main_Returned_mode [OF run'] x by auto
  obtain w2 w3 where last: "remove ''tmp_unpack.tar'' w2 = (Returned, w3)"
    and b: "benchmark_block a w3 = (Returned, w')"
    using run' t unfolding main_extract [OF x mode ext]
    by (auto simp add: andthen_Returned_iff)
  show "files w' ''tmp_unpack.tar'' = None"
    using remove_Returned [OF last] benchmark_Returned [OF b] by simp
next
  let ?tmp = "''tmp_data.tar''"
  let ?pass = "codec_pass B (pack_label (suffix (target a))) ?tmp (target a) (progress a)"
  let ?cleanup = "\<lambda>w'. if exists w' ?tmp then remove ?tmp w' else skip w'"
  assume bad: "s \<noteq> Returned" and c: "compress a" and mode: "\<not> extract a"
    and d: "is_dir w (source a)" and ext: "codec_ext (suffix (target a))"
    and shaped: "tar_shaped (target a)"
    and built: "fst (tar_build B (source a) ?tmp w) = Returned"
  obtain w1 where b: "tar_build B (source a) ?tmp w = (Returned, w1)"
    using built by (cases "tar_build B (source a) ?tmp w") simp
  obtain bs where f1: "files w1 ?tmp = Some (File bs)"
    using tar_build_post [OF b] by blast
  have ne: "target a \<noteq> ?tmp" using codec_ext_not_tmp [OF ext] by simp
  obtain s2 w2 where p: "?pass w1 = (s2, w2)" by (cases "?pass w1")
  have m: "andthen (andthen ?pass ?cleanup) (benchmark_block a) w1 = (s, w')"
    using run d shaped b
    by (simp add: main_compress [OF c mode ext] andthen_assoc andthen_Returned)
  have keep: "files w2 ?tmp = Some (File bs)"
    using pass_others [of ?tmp "target a" B "pack_label (suffix (target a))" ?tmp "progress a" w1]
      ne p f1 by simp
  show "files w' ?tmp \<noteq> None"
  proof (cases "s2 = Returned")
    case True
    have "exists w2 ?tmp" using keep by (simp add: exists_def)
    then have "andthen ?pass ?cleanup w1 = (Returned, w2\<lparr>files := (files w2)(?tmp := None)\<rparr>)"
      using p True remove_File [OF keep] by (simp add: andthen_def)
    then have "s = Returned"
      using andthen_benchmark_eq [OF m] by simp
    then show ?thesis using bad by simp
  next
    case False
    then have "andthen ?pass ?cleanup w1 = (s2, w2)"
      using p by (cases s2) (simp_all add: andthen_def)
    then have "files w' ?tmp = files w2 ?tmp"
      using andthen_benchmark_eq [OF m] by simp
    then show ?thesis using keep by simp
  qed
next
  let ?tmp = "''tmp_unpack.tar''"
  let ?pass = "codec_pass B (unpack_label (suffix (source a))) (source a) ?tmp (progress a)"
  let ?unpack = "tar_unpack B ?tmp (target a)"
  assume bad: "s \<noteq> Returned" and x: "extract a" and mode: "\<not> compress a"
    and shaped: "tar_shaped (source a)" and ext: "codec_ext (suffix (source a))"
    and passed: "fst (?pass w) = Returned"
  obtain w1 where p: "?pass w = (Returned, w1)"
    using passed by (cases "?pass w") simp
  obtain out where f1: "files w1 ?tmp = Some (File out)"
    using pass_outcome [OF p] by auto
  have m: "andthen (andthen ?unpack (remove ?tmp)) (benchmark_block a) w1 = (s, w')"
    using run shaped p
    by (simp add: main_extract [OF x mode ext] andthen_assoc andthen_Returned)
  obtain s2 w2 where u: "?unpack w1 = (s2, w2)" by (cases "?unpack w1")
  have keep: "files w2 ?tmp = Some (File out)"
  proof (cases "target a = ?tmp")
    case True
    then show ?thesis using tar_unpack_onto_file [of w1 "target a" out B ?tmp] f1 u by simp
  next
    case False
    then show ?thesis
      using tar_unpack_others [of ?tmp "target a" B ?tmp w1] u f1 by simp
  qed
  show "files w' ?tmp \<noteq> None"
  proof (cases "s2 = Returned")
    case True
    then have "andthen ?unpack (remove ?tmp) w1 = (Returned, w2\<lparr>files := (files w2)(?tmp := None)\<rparr>)"
      using u remove_File [OF keep] by (simp add: andthen_def)
    then have "s = Returned"
      using andthen_benchmark_eq [OF m] by simp
    then show ?thesis using bad by simp
  next
    case False
    then have "andthen ?unpack (remove ?tmp) w1 = (s2, w2)"
      using u by (cases s2) (simp_all add: andthen_def)
    then have "files w' ?tmp = files w2 ?tmp"
      using andthen_benchmark_eq [OF m] by simp
    then show ?thesis using keep by simp
  qed
qed

lemma example_extract_onto_file:
  "fst (codec_pass toy_backend (unpack_label (suffix ''proj.tar.zst'')) ''proj.tar.zst''
          ''tmp_unpack.tar'' False
          (disk [''proj.tar.zst'' \<mapsto> File (90 # tar_add toy_backend ''proj'' (Dir [(''a.txt'', File [1, 2])])),
                 ''out'' \<mapsto> File [7]])) = Returned
   \<and> fst (main toy_backend (invocation False True ''proj.tar.zst'' ''out'' False False)
        (disk [''proj.tar.zst'' \<mapsto> File (90 # tar_add toy_backend ''proj'' (Dir [(''a.txt'', File [1, 2])])),
               ''out'' \<mapsto> File [7]]))
      = Raised FileExistsError
   \<and> files (snd (main toy_backend (invocation False True ''proj.tar.zst'' ''out'' False False)
        (disk [''proj.tar.zst'' \<mapsto> File (90 # tar_add toy_backend ''proj'' (Dir [(''a.txt'', File [1, 2])])),
               ''out'' \<mapsto> File [7]]))) ''tmp_unpack.tar''
      = Some (File (tar_add toy_backend ''proj'' (Dir [(''a.txt'', File [1, 2])])))"
proof -
  let ?tb = "tar_add toy_backend ''proj'' (Dir [(''a.txt'', File [1, 2])])"
  let ?a = "invocation False True ''proj.tar.zst'' ''out'' False False"
  let ?w = "disk [''proj.tar.zst'' \<mapsto> File (90 # ?tb), ''out'' \<mapsto> File [7]]"
  have fields: "source ?a = ''proj.tar.zst''" "target ?a = ''out''" "progress ?a = False"
    by (simp_all add: invocation_def)
  have modes: "extract ?a" "\<not> compress ?a"
    by (simp_all add: invocation_def)
  have ext: "codec_ext (suffix (source ?a))"
    by (simp add: fields name_examples codec_ext_def)
  have s1: "files ?w ''proj.tar.zst'' = Some (File (90 # ?tb))"
    and d1: "\<not> is_dir ?w ''tmp_unpack.tar''"
    by (simp_all add: disk_def is_dir_def)
  obtain w1 where p1: "codec_pass toy_backend Zstd_unpack ''proj.tar.zst'' ''tmp_unpack.tar'' False ?w
        = (Returned, w1)"
    and f1: "files w1 = (files ?w)(''tmp_unpack.tar'' \<mapsto> File ?tb)"
    using pass_eval [OF s1 d1 toy_transform(2)] by blast
  have "files w1 ''out'' = Some (File [7])"
    using f1 by (simp add: disk_def)
  then have u1: "tar_unpack toy_backend ''tmp_unpack.tar'' ''out'' w1 = (Raised FileExistsError, w1)"
    by (rule tar_unpack_onto_file)
  have m1: "main toy_backend ?a ?w = (Raised FileExistsError, w1)"
    using p1 u1
    by (simp add: main_extract [OF modes ext] fields name_examples unpack_label_def andthen_def)
  show ?thesis
    using p1 m1 f1 by (simp add: name_examples unpack_label_def)
qed

lemma example_compress_onto_dir:
  "fst (tar_build toy_backend ''proj'' ''tmp_data.tar''
          (disk [''proj'' \<mapsto> Dir [(''a.txt'', File [1, 2])], ''proj.tar.zst'' \<mapsto> Dir []]))
      = Returned
   \<and> fst (main toy_backend (invocation True False ''proj'' ''proj.tar.zst'' False False)
        (disk [''proj'' \<mapsto> Dir [(''a.txt'', File [1, 2])], ''proj.tar.zst'' \<mapsto> Dir []]))
      = Raised IsADirectoryError
   \<and> files (snd (main toy_backend (invocation True False ''proj'' ''proj.tar.zst'' False False)
        (disk [''proj'' \<mapsto> Dir [(''a.txt'', File [1, 2])], ''proj.tar.zst'' \<mapsto> Dir []])))
        ''tmp_data.tar''
      = Some (File (tar_add toy_backend ''proj'' (Dir [(''a.txt'', File [1, 2])])))"
proof -
  let ?tb = "tar_add toy_backend ''proj'' (Dir [(''a.txt'', File [1, 2])])"
  let ?c = "invocation True False ''proj'' ''proj.tar.zst'' False False"
  let ?v = "disk [''proj'' \<mapsto> Dir [(''a.txt'', File [1, 2])], ''proj.tar.zst'' \<mapsto> Dir []]"
  have fields: "source ?c = ''proj''" "target ?c = ''proj.tar.zst''" "progress ?c = False"
    by (simp_all add: invocation_def)
  have modes: "compress ?c" "\<not> extract ?c"
    by (simp_all add: invocation_def)
  have ext: "codec_ext (suffix (target ?c))"
    by (simp add: fields name_examples codec_ext_def)
  have s2: "files ?v ''proj'' = Some (Dir [(''a.txt'', File [1, 2])])"
    and d2: "\<not> is_dir ?v ''tmp_data.tar''" and dir2: "is_dir ?v ''proj''"
    by (simp_all add: disk_def is_dir_def)
  obtain v1 where b2: "tar_build toy_backend ''proj'' ''tmp_data.tar'' ?v = (Returned, v1)"
    and g1: "files v1 = (files ?v)(''tmp_data.tar'' \<mapsto> File ?tb)"
    using tar_build_eval [OF s2 d2, of toy_backend] by (auto simp add: name_examples)
  have sv: "files v1 ''tmp_data.tar'' = Some (File ?tb)" and dv: "is_dir v1 ''proj.tar.zst''"
    using g1 by (simp_all add: disk_def is_dir_def)
  note blocked = pass_blocked [OF sv dv toy_transform(1), of False]
  obtain v2 where p2: "codec_pass toy_backend Zstd_pack ''tmp_data.tar'' ''proj.tar.zst'' False v1
        = (Raised IsADirectoryError, v2)"
    and g2: "files v2 = files v1"
    using blocked
    by (cases "codec_pass toy_backend Zstd_pack ''tmp_data.tar'' ''proj.tar.zst'' False v1") auto
  have m2: "main toy_backend ?c ?v = (Raised IsADirectoryError, v2)"
    using b2 p2 dir2
    by (simp add: main_compress [OF modes ext] fields name_examples pack_label_def andthen_def)
  show ?thesis
    using b2 m2 g2 g1 by simp
qed

theorem transient_archive_witness:
  "main toy_backend (invocation True False ''proj'' ''proj.tar.bz2'' True True)
        (disk [''proj'' \<mapsto> Dir [(''a.txt'', File [1, 2])]])
     = (Returned, snd (main toy_backend (invocation True False ''proj'' ''proj.tar.bz2'' True True)
        (disk [''proj'' \<mapsto> Dir [(''a.txt'', File [1, 2])]])))
   \<and> compress (invocation True False ''proj'' ''proj.tar.bz2'' True True)
   \<and> is_dir (disk [''proj'' \<mapsto> Dir [(''a.txt'', File [1, 2])]]) ''proj''
   \<and> files (snd (main toy_backend (invocation True False ''proj'' ''proj.tar.bz2'' True True)
        (disk [''proj'' \<mapsto> Dir [(''a.txt'', File [1, 2])]]))) ''tmp_data.tar'' = None
   \<and> main toy_backend (invocation False True ''proj.tar.zst'' ''out'' False True)
        (disk [''proj.tar.zst'' \<mapsto> File (90 # tar_add toy_backend ''proj''
            (Dir [(''a.txt'', File [1, 2]), (''b'', Dir [(''c.txt'', File [3])])]))])
     = (Returned, snd (main toy_backend (invocation False True ''proj.tar.zst'' ''out'' False True)
        (disk [''proj.tar.zst'' \<mapsto> File (90 # tar_add toy_backend ''proj''
            (Dir [(''a.txt'', File [1, 2]), (''b'', Dir [(''c.txt'', File [3])])]))])))
   \<and> extract (invocation False True ''proj.tar.zst'' ''out'' False True)
   \<and> tar_shaped ''proj.tar.zst''
   \<and> files (snd (main toy_backend (invocation False True ''proj.tar.zst'' ''out'' False True)
        (disk [''proj.tar.zst'' \<mapsto> File (90 # tar_add toy_backend ''proj''
            (Dir [(''a.txt'', File [1, 2]), (''b'', Dir [(''c.txt'', File [3])])]))])))
        ''tmp_unpack.tar'' = None
   \<and> files (snd (main toy_backend (invocation False True ''proj.tar.zst'' ''out'' False False)
        (disk [''proj.tar.zst'' \<mapsto> File (90 # tar_add toy_backend ''proj'' (Dir [(''a.txt'', File [1, 2])])),
               ''out'' \<mapsto> File [7]]))) ''tmp_unpack.tar'' \<noteq> None
   \<and> files (snd (main toy_backend (invocation True False ''proj'' ''proj.tar.zst'' False False)
        (disk [''proj'' \<mapsto> Dir [(''a.txt'', File [1, 2])], ''proj.tar.zst'' \<mapsto> Dir []])))
        ''tmp_data.tar'' \<noteq> None"
proof -
  let ?T = "Dir [(''a.txt'', File [1, 2]), (''b'', Dir [(''c.txt'', File [3])])]"
  let ?tb = "tar_add toy_backend ''proj'' ?T"
  let ?c = "invocation True False ''proj'' ''proj.tar.bz2'' True True"
  let ?v = "disk [''proj'' \<mapsto> Dir [(''a.txt'', File [1, 2])]]"
  let ?a = "invocation False True ''proj.tar.zst'' ''out'' False True"
  let ?w = "disk [''proj.tar.zst'' \<mapsto> File (90 # ?tb)]"
  have fields: "source ?a = ''proj.tar.zst''" "target ?a = ''out''"
      "source ?c = ''proj''" "target ?c = ''proj.tar.bz2''"
    by (simp_all add: invocation_def)
  have modes: "extract ?a" "\<not> compress ?a" "compress ?c" "\<not> extract ?c"
    by (simp_all add: invocation_def)
  have c1: "codec_ext (suffix (target ?c))" and c2: "tar_shaped (target ?c)"
    and c3: "files ?v (source ?c) = Some (Dir [(''a.txt'', File [1, 2])])"
    and c4: "\<not> is_dir ?v ''tmp_data.tar''" and c5: "\<not> is_dir ?v (target ?c)"
    and c6: "is_dir ?v ''proj''"
    by (simp_all add: fields name_examples codec_ext_def disk_def is_dir_def)
  have c7: "transform toy_backend (pack_label (suffix (target ?c)))
        (tar_add toy_backend (basename (source ?c)) (Dir [(''a.txt'', File [1, 2])]))
      = Some (66 # tar_add toy_backend (basename (source ?c)) (Dir [(''a.txt'', File [1, 2])]))"
    by (simp add: fields name_examples pack_label_def toy_transform del: transform.simps)
  note packed = compress_dir_ok [OF modes(3,4) c1 c2 c3 c4 c5 c7]
  have x1: "codec_ext (suffix (source ?a))" and x2: "tar_shaped (source ?a)"
    and x3: "files ?w (source ?a) = Some (File (90 # ?tb))"
    and x4: "\<not> is_dir ?w ''tmp_unpack.tar''"
    and x5: "\<not> is_file ?w (target ?a)" "target ?a \<noteq> ''tmp_unpack.tar''"
    by (simp_all add: fields name_examples codec_ext_def disk_def is_dir_def is_file_def)
  have x6: "transform toy_backend (unpack_label (suffix (source ?a))) (90 # ?tb) = Some ?tb"
    by (simp add: fields name_examples unpack_label_def toy_transform del: transform.simps)
  have x7: "tar_extractall toy_backend ?tb
        (case files ?w (target ?a) of Some (Dir es) \<Rightarrow> es | _ \<Rightarrow> []) = (True, [(''proj'', ?T)])"
    using toy_tar_example by (simp add: fields disk_def)
  note unpacked = extract_bundle_ok [OF modes(1,2) x1 x2 x3 x4 x6 x5 x7]
  have r1: "main toy_backend ?c ?v = (Returned, snd (main toy_backend ?c ?v))"
    using packed by (simp add: prod_eq_iff)
  have r2: "main toy_backend ?a ?w = (Returned, snd (main toy_backend ?a ?w))"
    using unpacked by (simp add: prod_eq_iff)
  show ?thesis
    using transient_archive [OF r1] transient_archive [OF r2] r1 r2 modes c6 x2
      example_extract_onto_file example_compress_onto_dir
    by (simp add: fields)
qed

text \<open>
  C2 as the specification states it fails on a failing run. Extracting a bundle into a path that is a
  regular file raises in \<^verbatim>\<open>os.makedirs\<close>, after \<^verbatim>\<open>tmp_unpack.tar\<close> was written;
  compressing a directory into a path that is a directory raises when the output is
  written, after \<^verbatim>\<open>tmp_data.tar\<close> was built. Neither archive was there before, and
  both stay on disk.
\<close>

theorem artifact_left_behind:
  "files (disk [''proj.tar.zst'' \<mapsto> File (90 # tar_add toy_backend ''proj'' (Dir [(''a.txt'', File [1, 2])])),
               ''out'' \<mapsto> File [7]]) ''tmp_unpack.tar'' = None
   \<and> fst (main toy_backend (invocation False True ''proj.tar.zst'' ''out'' False False)
        (disk [''proj.tar.zst'' \<mapsto> File (90 # tar_add toy_backend ''proj'' (Dir [(''a.txt'', File [1, 2])])),
               ''out'' \<mapsto> File [7]]))
      = Raised FileExistsError
   \<and> files (snd (main toy_backend (invocation False True ''proj.tar.zst'' ''out'' False False)
        (disk [''proj.tar.zst'' \<mapsto> File (90 # tar_add toy_backend ''proj'' (Dir [(''a.txt'', File [1, 2])])),
               ''out'' \<mapsto> File [7]]))) ''tmp_unpack.tar''
      = Some (File (tar_add toy_backend ''proj'' (Dir [(''a.txt'', File [1, 2])])))
   \<and> files (disk [''proj'' \<mapsto> Dir [(''a.txt'', File [1, 2])], ''proj.tar.zst'' \<mapsto> Dir []])
        ''tmp_data.tar'' = None
   \<and> fst (main toy_backend (invocation True False ''proj'' ''proj.tar.zst'' False False)
        (disk [''proj'' \<mapsto> Dir [(''a.txt'', File [1, 2])], ''proj.tar.zst'' \<mapsto> Dir []]))
      = Raised IsADirectoryError
   \<and> files (snd (main toy_backend (invocation True False ''proj'' ''proj.tar.zst'' False False)
        (disk [''proj'' \<mapsto> Dir [(''a.txt'', File [1, 2])], ''proj.tar.zst'' \<mapsto> Dir []])))
        ''tmp_data.tar''
      = Some (File (tar_add toy_backend ''proj'' (Dir [(''a.txt'', File [1, 2])])))"
  using example_extract_onto_file example_compress_onto_dir by (simp add: disk_def)

section \<open>Round trip\<close>


lemma chunks_of_no_empty: "[] \<notin> set (chunks_of chunk xs)"
  using chunks_of_sizes [OF chunk_pos, of "[]" xs] by auto

lemma restores_from_libraries:
  assumes "zstd_faithful B" and "bz2_faithful B"
  shows "restores B ext data"
proof (cases "ext = ''.zst''")
  case True
  have "zd_run B (zd_new B) (chunks_of chunk (zstd_stream B (chunks_of chunk data)))
      = Some (concat (chunks_of chunk data))"
    using assms(1) chunks_of_no_empty concat_chunks_of [OF chunk_pos]
    unfolding zstd_faithful_def by blast
  then show ?thesis
    using True by (simp add: restores_def pack_label_def unpack_label_def concat_chunks_of [OF chunk_pos])
next
  case False
  then show ?thesis
    using assms(2) by (simp add: restores_def pack_label_def unpack_label_def bz2_faithful_def)
qed






lemma preserved_andthen:
  "(\<And>v. I v \<Longrightarrow> I (snd (f v))) \<Longrightarrow> (\<And>v. I v \<Longrightarrow> I (snd (g v))) \<Longrightarrow> I w \<Longrightarrow>
   I (snd (andthen f g w))"
proof -
  assume f: "\<And>v. I v \<Longrightarrow> I (snd (f v))" and g: "\<And>v. I v \<Longrightarrow> I (snd (g v))" and w: "I w"
  obtain s w1 where fw: "f w = (s, w1)" by (cases "f w")
  have i1: "I w1" using f [OF w] fw by simp
  show ?thesis
  proof (cases "s = Returned")
    case True
    then show ?thesis using fw g [OF i1] by (simp add: andthen_def)
  next
    case False
    then show ?thesis using fw i1 by (cases s) (simp_all add: andthen_def)
  qed
qed

lemma tar_unpack_keeps_directory:
  "(\<forall>bs. files v dst \<noteq> Some (File bs)) \<Longrightarrow>
   (\<forall>bs. files (snd (tar_unpack B tmp dst v)) dst \<noteq> Some (File bs))"
  by (auto simp add: tar_unpack_def andthen_def makedirs_def print_def Let_def
        split: option.splits node.splits sum.splits)

lemma remove_others: "q \<noteq> p \<Longrightarrow> files (snd (remove p v)) q = files v q"
  by (simp add: remove_def split: option.splits node.splits)

lemma bundle_source_never_yields_file:
  assumes mode: "extract a" "\<not> compress a" and ext: "codec_ext (suffix (source a))"
    and shaped: "tar_shaped (source a)" and ne: "target a \<noteq> ''tmp_unpack.tar''"
    and before: "\<forall>bs. files w (target a) \<noteq> Some (File bs)"
  shows "\<forall>bs. files (snd (main B a w)) (target a) \<noteq> Some (File bs)"
proof -
  define I where "I = (\<lambda>v :: world. \<forall>bs. files v (target a) \<noteq> Some (File bs))"
  let ?pass = "codec_pass B (unpack_label (suffix (source a))) (source a) ''tmp_unpack.tar''
      (progress a)"
  have p: "\<And>v. I v \<Longrightarrow> I (snd (?pass v))"
    using ne by (simp add: I_def pass_others)
  have u: "\<And>v. I v \<Longrightarrow> I (snd (tar_unpack B ''tmp_unpack.tar'' (target a) v))"
    unfolding I_def by (rule tar_unpack_keeps_directory)
  have r: "\<And>v. I v \<Longrightarrow> I (snd (remove ''tmp_unpack.tar'' v))"
    using ne by (simp add: I_def remove_others)
  have b: "\<And>v. I v \<Longrightarrow> I (snd (benchmark_block a v))"
    by (simp add: I_def files_benchmark_block)
  have ur: "\<And>v. I v \<Longrightarrow>
      I (snd (andthen (tar_unpack B ''tmp_unpack.tar'' (target a)) (remove ''tmp_unpack.tar'') v))"
    by (rule preserved_andthen [where I = I, OF u r])
  have pur: "\<And>v. I v \<Longrightarrow>
      I (snd (andthen ?pass
            (andthen (tar_unpack B ''tmp_unpack.tar'' (target a)) (remove ''tmp_unpack.tar'')) v))"
    by (rule preserved_andthen [where I = I, OF p ur])
  have "I w" using before by (simp add: I_def)
  then have "I (snd (main B a w))"
    unfolding main_extract [OF mode ext] using shaped
    by (simp add: preserved_andthen [where I = I, OF pur b])
  then show ?thesis by (simp add: I_def)
qed




end
